theory Spec2Isabelle
  imports Complex_Main "HOL-Library.Multiset"
begin

section \<open>The AST of PyCAS\<close>

text \<open>
  PyCAS represents an expression as a Python dict with a \<open>"type"\<close> key: \<open>const\<close> (field
  \<open>value\<close>), \<open>var\<close> (field \<open>variable\<close>), \<open>power\<close> (\<open>base\<close>, \<open>exp\<close>), \<open>mul\<close> (\<open>const\<close>,
  \<open>expr\<close>), \<open>prod\<close> (\<open>factors\<close>), \<open>sum\<close> (\<open>terms\<close>) and \<open>func\<close> (\<open>name\<close>, \<open>arg\<close>).
  The function \<open>unsupported\<close> of \<open>errors.py\<close> builds one more dict,
  \<open>{"error": True, "reason": reason}\<close>, which has no \<open>"type"\<close> key. The normalizer returns
  it where a tree is expected, so it is a constructor of the same datatype: \<open>ErrorObj\<close>.

  Numeric values are Python ints and \<open>Fraction\<close>s, modelled as exact rationals
  (floats, which the tokenizer produces for literals with a decimal point, are outside
  the model). Exponents are Python ints.

  Python exceptions are values of \<open>exn\<close>; a function that can raise returns
  \<open>exn + 'a\<close>, with \<open>Inl\<close> the exception.
\<close>

datatype exn = KeyError string | IndexError string | TypeError string

datatype node =
    Const rat
  | Var string
  | Power node int
  | Mul rat node
  | Prod "node list"
  | Sum "node list"
  | Func string node
  | ErrorObj string

text \<open>\<open>errors.py\<close>: the standardized error object.\<close>

definition unsupported :: "string \<Rightarrow> node" where
  "unsupported reason = ErrorObj reason"

text \<open>The value of \<open>expr["type"]\<close> as it is formatted into messages (only used on nodes).\<close>

fun type_name :: "node \<Rightarrow> string" where
  "type_name (Const v) = ''const''"
| "type_name (Var x) = ''var''"
| "type_name (Power b e) = ''power''"
| "type_name (Mul c e) = ''mul''"
| "type_name (Prod fs) = ''prod''"
| "type_name (Sum ts) = ''sum''"
| "type_name (Func n a) = ''func''"
| "type_name (ErrorObj r) = ''None''"

section \<open>Normalization rules (\<open>normalizer_rules.py\<close>, \<open>normalizer.py\<close>)\<close>

text \<open>\<open>prod_order_key\<close>: \<open>order.get(factor["type"], 99)\<close>. It is applied to the factors
  that step 2 of \<open>normalize_prod\<close> admitted (var, power, func) and to the canonical
  variable; \<open>sorted_factors\<close> writes out the KeyError that the key function raises on
  an error object.\<close>

fun prod_order_key :: "node \<Rightarrow> nat" where
  "prod_order_key (Var x) = 0"
| "prod_order_key (Power b e) = 1"
| "prod_order_key (Func n a) = 2"
| "prod_order_key _ = 99"

fun is_error_obj :: "node \<Rightarrow> bool" where
  "is_error_obj (ErrorObj r) = True"
| "is_error_obj _ = False"

definition sorted_factors :: "node list \<Rightarrow> exn + node list" where
  "sorted_factors fs =
     (if list_ex is_error_obj fs then Inl (KeyError ''type'')
      else Inr (sort_key prod_order_key fs))"

text \<open>A list comprehension \<open>[f(x) for x in xs]\<close> over calls that may raise: the first
  exception, in list order, propagates.\<close>

fun collect :: "(exn + 'a) list \<Rightarrow> exn + 'a list" where
  "collect [] = Inr []"
| "collect (r # rs) =
     (case r of
        Inl x \<Rightarrow> Inl x
      | Inr v \<Rightarrow> (case collect rs of Inl x \<Rightarrow> Inl x | Inr vs \<Rightarrow> Inr (v # vs)))"

text \<open>Step 1 of \<open>normalize_prod\<close>, given the results of normalizing the factors in order:
  \<open>f["type"]\<close> is read right after each factor is normalized, and the factors of a
  nested product are spliced in.\<close>

fun flatten_factors :: "(exn + node) list \<Rightarrow> exn + node list" where
  "flatten_factors [] = Inr []"
| "flatten_factors (r # rs) =
     (case r of
        Inl x \<Rightarrow> Inl x
      | Inr f \<Rightarrow>
          (case f of
             ErrorObj reason \<Rightarrow> Inl (KeyError ''type'')
           | Prod gs \<Rightarrow>
               (case flatten_factors rs of Inl x \<Rightarrow> Inl x | Inr fs \<Rightarrow> Inr (gs @ fs))
           | _ \<Rightarrow>
               (case flatten_factors rs of Inl x \<Rightarrow> Inl x | Inr fs \<Rightarrow> Inr (f # fs))))"

text \<open>Step 2.5: the first factor that is a var, or the base of the first power whose base
  is a var. \<open>factor["base"]["type"]\<close> raises KeyError when the base is an error object.\<close>

fun canonical_variable :: "node list \<Rightarrow> exn + node option" where
  "canonical_variable [] = Inr None"
| "canonical_variable (f # fs) =
     (case f of
        Var x \<Rightarrow> Inr (Some f)
      | Power b e \<Rightarrow>
          (case b of
             ErrorObj reason \<Rightarrow> Inl (KeyError ''type'')
           | Var x \<Rightarrow> Inr (Some b)
           | _ \<Rightarrow> canonical_variable fs)
      | _ \<Rightarrow> canonical_variable fs)"

text \<open>Step 3, the loop: \<open>power_sum\<close> and \<open>other_factors\<close> are the accumulators.\<close>

fun combine_powers :: "node list \<Rightarrow> int \<Rightarrow> node list \<Rightarrow> exn + (int \<times> node list)" where
  "combine_powers [] power_sum other_factors = Inr (power_sum, other_factors)"
| "combine_powers (f # fs) power_sum other_factors =
     (case f of
        Var x \<Rightarrow> combine_powers fs (power_sum + 1) other_factors
      | Power b e \<Rightarrow>
          (case b of
             ErrorObj reason \<Rightarrow> Inl (KeyError ''type'')
           | Var x \<Rightarrow> combine_powers fs (power_sum + e) other_factors
           | _ \<Rightarrow> combine_powers fs power_sum (other_factors @ [f]))
      | _ \<Rightarrow> combine_powers fs power_sum (other_factors @ [f]))"

text \<open>Step 5 of \<open>normalize_prod\<close>: rebuild the node from the constant and the sorted
  factors.\<close>

definition rebuild_node :: "rat \<Rightarrow> node list \<Rightarrow> node" where
  "rebuild_node product_of_const other_factors =
     (case other_factors of
        [] \<Rightarrow> Const product_of_const
      | [f] \<Rightarrow> if product_of_const = 1 then f else Mul product_of_const f
      | _ \<Rightarrow>
          if product_of_const \<noteq> 1
          then Mul product_of_const (Prod other_factors)
          else Prod other_factors)"

text \<open>Steps 2.5 to 4 of \<open>normalize_prod\<close>, and then step 5, on the constant and the
  atomic factors that step 2 collected. Where \<open>canonical_var\<close> is still \<open>None\<close> the Python would append
  \<open>None\<close> (and \<open>sorted\<close> would raise TypeError on it); \<open>power_sum\<close> is positive only
  when some factor set \<open>canonical_var\<close>, so that branch is not reachable, and it is
  modelled as the TypeError.\<close>

definition rebuild_prod :: "rat \<Rightarrow> node list \<Rightarrow> exn + node" where
  "rebuild_prod product_of_const atomic_factors =
     (case canonical_variable atomic_factors of
        Inl x \<Rightarrow> Inl x
      | Inr canonical_var \<Rightarrow>
     (case combine_powers atomic_factors 0 [] of
        Inl x \<Rightarrow> Inl x
      | Inr (power_sum, other) \<Rightarrow>
     (case (if power_sum = 1 then
              (case canonical_var of
                 None \<Rightarrow> Inl (TypeError ''NoneType'')
               | Some cv \<Rightarrow> Inr (other @ [cv]))
            else if power_sum \<ge> 2 then
              (case canonical_var of
                 None \<Rightarrow> Inl (TypeError ''NoneType'')
               | Some cv \<Rightarrow> Inr (other @ [Power cv power_sum]))
            else Inr other) of
        Inl x \<Rightarrow> Inl x
      | Inr appended \<Rightarrow>
     (case sorted_factors appended of
        Inl x \<Rightarrow> Inl x
      | Inr other_factors \<Rightarrow> Inr (rebuild_node product_of_const other_factors)))))"

text \<open>Step 2 of \<open>normalize_prod\<close>, the loop with its two early returns; at the end of the
  list the remaining steps run.\<close>

fun absorb_constants :: "node list \<Rightarrow> rat \<Rightarrow> node list \<Rightarrow> exn + node" where
  "absorb_constants [] product_of_const atomic_factors =
     rebuild_prod product_of_const atomic_factors"
| "absorb_constants (f # fs) product_of_const atomic_factors =
     (case f of
        ErrorObj reason \<Rightarrow> Inl (KeyError ''type'')
      | Const v \<Rightarrow>
          if v = 0 then Inr (Const 0)
          else absorb_constants fs (product_of_const * v) atomic_factors
      | Var x \<Rightarrow> absorb_constants fs product_of_const (atomic_factors @ [f])
      | Power b e \<Rightarrow> absorb_constants fs product_of_const (atomic_factors @ [f])
      | Func n a \<Rightarrow> absorb_constants fs product_of_const (atomic_factors @ [f])
      | _ \<Rightarrow> Inr (unsupported (''Unsupported Factor Type in Product: '' @ type_name f)))"

text \<open>The loop of \<open>normalize_sum\<close> over the normalized terms.\<close>

fun flatten_terms :: "node list \<Rightarrow> exn + node list" where
  "flatten_terms [] = Inr []"
| "flatten_terms (t # ts) =
     (case t of
        ErrorObj reason \<Rightarrow> Inl (KeyError ''type'')
      | Sum us \<Rightarrow>
          (case flatten_terms ts of Inl x \<Rightarrow> Inl x | Inr new_terms \<Rightarrow> Inr (us @ new_terms))
      | Const v \<Rightarrow>
          if v = 0 then flatten_terms ts
          else (case flatten_terms ts of Inl x \<Rightarrow> Inl x | Inr new_terms \<Rightarrow> Inr (t # new_terms))
      | _ \<Rightarrow>
          (case flatten_terms ts of Inl x \<Rightarrow> Inl x | Inr new_terms \<Rightarrow> Inr (t # new_terms)))"

definition rebuild_sum :: "node list \<Rightarrow> node" where
  "rebuild_sum new_terms =
     (case new_terms of
        [] \<Rightarrow> Const 0
      | [t] \<Rightarrow> t
      | _ \<Rightarrow> Sum new_terms)"

text \<open>
  \<open>normalize\<close> dispatches on the type and the rules call it back on the children, so the
  functions are mutually recursive, as in the source. A rule takes the fields of its
  node instead of the node. \<open>normalize\<close> of the error object raises
  \<open>KeyError('type')\<close> (\<open>expr["type"]\<close>); the \<open>ValueError\<close> branch for an unknown type
  has no counterpart, the datatype being closed.
\<close>

fun normalize :: "node \<Rightarrow> exn + node"
and normalize_power :: "node \<Rightarrow> int \<Rightarrow> exn + node"
and normalize_mul :: "rat \<Rightarrow> node \<Rightarrow> exn + node"
and normalize_prod :: "node list \<Rightarrow> exn + node"
and normalize_sum :: "node list \<Rightarrow> exn + node"
and normalize_func :: "string \<Rightarrow> node \<Rightarrow> exn + node"
where
  "normalize (Const v) = Inr (Const v)"
| "normalize (Var x) = Inr (Var x)"
| "normalize (Power b e) = normalize_power b e"
| "normalize (Mul c e) = normalize_mul c e"
| "normalize (Prod fs) = normalize_prod fs"
| "normalize (Sum ts) = normalize_sum ts"
| "normalize (Func name a) = normalize_func name a"
| "normalize (ErrorObj r) = Inl (KeyError ''type'')"
| "normalize_power b exponent =
     (case normalize b of
        Inl x \<Rightarrow> Inl x
      | Inr base \<Rightarrow>
          if exponent = 0 then Inr (Const 1)
          else if exponent = 1 then Inr base
          else Inr (Power base exponent))"
| "normalize_mul constant e =
     (if constant = 0 then Inr (Const 0)
      else
        (case normalize e of
           Inl x \<Rightarrow> Inl x
         | Inr inner_expr \<Rightarrow>
             (case inner_expr of
                ErrorObj reason \<Rightarrow> Inl (KeyError ''type'')
              | Const v \<Rightarrow> Inr (Const (v * constant))
              | Mul c inner \<Rightarrow> Inr (Mul (constant * c) inner)
              | _ \<Rightarrow>
                  if constant = 1 then Inr inner_expr
                  else Inr (Mul constant inner_expr))))"
| "normalize_prod fs =
     (case flatten_factors (map normalize fs) of
        Inl x \<Rightarrow> Inl x
      | Inr factors \<Rightarrow> absorb_constants factors 1 [])"
| "normalize_sum ts =
     (case collect (map normalize ts) of
        Inl x \<Rightarrow> Inl x
      | Inr terms \<Rightarrow>
          (case flatten_terms terms of
             Inl x \<Rightarrow> Inl x
           | Inr new_terms \<Rightarrow> Inr (rebuild_sum new_terms)))"
| "normalize_func name a =
     (case normalize a of
        Inl x \<Rightarrow> Inl x
      | Inr arg \<Rightarrow>
          (case arg of
             ErrorObj reason \<Rightarrow> Inl (KeyError ''type'')
           | Var x \<Rightarrow> Inr (Func name arg)
           | _ \<Rightarrow> Inr (unsupported (''Unsupported argument in function: '' @ name))))"

section \<open>Pretty printer (\<open>pretty_printer.py\<close>)\<close>

text \<open>Python's \<open>str\<close> of an int.\<close>

definition digit_char :: "nat \<Rightarrow> char" where
  "digit_char d = ''0123456789'' ! d"

fun str_nat :: "nat \<Rightarrow> string" where
  "str_nat n = (if n < 10 then [digit_char n] else str_nat (n div 10) @ [digit_char (n mod 10)])"

definition str_int :: "int \<Rightarrow> string" where
  "str_int i = (if i < 0 then ''-'' @ str_nat (nat (- i)) else str_nat (nat i))"

text \<open>Python's \<open>str\<close> of an int or of a \<open>Fraction\<close> (\<open>n/d\<close> in lowest terms, \<open>n\<close> alone when
  the denominator is 1), as the f-strings of the step traces format a value.\<close>

definition str_value :: "rat \<Rightarrow> string" where
  "str_value v =
     (let (n, d) = quotient_of v
      in if d = 1 then str_int n else str_int n @ ''/'' @ str_int d)"

text \<open>
  \<open>to_string(expr, mode, var_name)\<close>. The parameter \<open>fl\<close> stands for
  \<open>str(float(value))\<close>, the rendering of a non-integral constant in decimal mode,
  which is floating point. An int and a \<open>Fraction\<close> of denominator 1 print alike, so
  the \<open>isinstance\<close> test needs no counterpart. \<open>terms[0]\<close> of an empty sum raises
  IndexError.
\<close>

definition join_term :: "string \<Rightarrow> string \<Rightarrow> string" where
  "join_term result s =
     (case s of
        c # rest \<Rightarrow> if c = CHR ''-'' then result @ '' - '' @ rest else result @ '' + '' @ s
      | [] \<Rightarrow> result @ '' + '' @ s)"

fun to_string :: "(rat \<Rightarrow> string) \<Rightarrow> node \<Rightarrow> string \<Rightarrow> string \<Rightarrow> exn + string" where
  "to_string fl (Const v) mode var_name =
     Inr (let (n, d) = quotient_of v
          in if d = 1 then str_int n
             else if mode = ''fraction'' then str_int n @ ''/'' @ str_int d
             else fl v)"
| "to_string fl (Var x) mode var_name = Inr var_name"
| "to_string fl (Power b exponent) mode var_name =
     (case to_string fl b mode var_name of
        Inl x \<Rightarrow> Inl x
      | Inr base_str \<Rightarrow>
          Inr ((case b of Func n a \<Rightarrow> ''('' @ base_str @ '')'' | _ \<Rightarrow> base_str)
               @ ''^'' @ str_int exponent))"
| "to_string fl (Mul constant expression) mode var_name =
     (case to_string fl expression mode var_name of
        Inl x \<Rightarrow> Inl x
      | Inr s \<Rightarrow>
          (let inner_str =
                 (case expression of
                    Sum ts \<Rightarrow> ''('' @ s @ '')''
                  | Prod fs \<Rightarrow> ''('' @ s @ '')''
                  | _ \<Rightarrow> s)
           in if constant = - 1 then Inr (''-'' @ inner_str)
              else
                (case to_string fl (Const constant) mode ''x'' of
                   Inl x \<Rightarrow> Inl x
                 | Inr constant_str \<Rightarrow> Inr (constant_str @ inner_str))))"
| "to_string fl (Prod fs) mode var_name =
     (case collect (map (\<lambda>factor. to_string fl factor mode var_name) fs) of
        Inl x \<Rightarrow> Inl x
      | Inr parts \<Rightarrow> Inr (concat parts))"
| "to_string fl (Sum ts) mode var_name =
     (case ts of
        [] \<Rightarrow> Inl (IndexError ''list index out of range'')
      | t # rest \<Rightarrow>
          (case to_string fl t mode var_name of
             Inl x \<Rightarrow> Inl x
           | Inr result \<Rightarrow>
               (case collect (map (\<lambda>t'. to_string fl t' mode var_name) rest) of
                  Inl x \<Rightarrow> Inl x
                | Inr strs \<Rightarrow> Inr (foldl join_term result strs))))"
| "to_string fl (Func name a) mode var_name = Inr (name @ ''('' @ var_name @ '')'')"
| "to_string fl (ErrorObj r) mode var_name = Inl (KeyError ''type'')"

section \<open>Rewrite rules (\<open>rules.py\<close>) and dispatch (\<open>core.py\<close>)\<close>

text \<open>
  A rule returns either the error object or a dict with the keys \<open>result\<close>, \<open>steps\<close> and,
  for integration, \<open>constant\<close> (the field \<open>constant'\<close>); the dispatcher adds \<open>string\<close>.
  A missing key is \<open>None\<close>.
  The step trace is a list whose elements are strings or nested traces.
\<close>

datatype step = Line string | Nested "step list"

record out =
  result :: node
  steps :: "step list"
  string :: "string option"
  constant' :: "bool option"

datatype outcome = Failure string | Success out

text \<open>The integral sign U+222B of the trace messages, in UTF-8.\<close>

definition integral_sign :: string where
  "integral_sign = [CHR 0xE2, CHR 0x88, CHR 0xAB]"

definition VAR :: node where
  "VAR = Var ''x''"

definition integrate_const :: "rat \<Rightarrow> exn + outcome" where
  "integrate_const c =
     Inr (Success \<lparr>
       result = Mul c VAR,
       steps = [Line (integral_sign @ '' '' @ str_value c @ '' dx = '' @ str_value c @ ''x + C'')],
       string = None,
       constant' = Some True\<rparr>)"

definition integrate_var :: "node \<Rightarrow> exn + outcome" where
  "integrate_var expr =
     Inr (Success \<lparr>
       result = Mul (Fract 1 2) (Power expr 2),
       steps = [Line (integral_sign @ '' x dx = x^2/2 + C'')],
       string = None,
       constant' = Some True\<rparr>)"

definition integrate_power :: "node \<Rightarrow> int \<Rightarrow> exn + outcome" where
  "integrate_power base n =
     (case base of
        ErrorObj reason \<Rightarrow> Inl (KeyError ''type'')
      | Var x \<Rightarrow>
          if n = - 1
          then Inr (Failure ''Integral of x^-1 needs Logarithms(not implemented yet)'')
          else Inr (Success \<lparr>
            result = Mul (Fract 1 (n + 1)) (Power base (n + 1)),
            steps = [Line (integral_sign @ '' x^'' @ str_int n @ '' dx = x^'' @ str_int (n + 1)
                           @ ''/'' @ str_int (n + 1) @ '' + C'')],
            string = None,
            constant' = Some True\<rparr>)
      | _ \<Rightarrow> Inr (Failure ''Power rule only supports x^n (no chain rule yet)''))"

text \<open>\<open>arg["variable"]\<close> raises KeyError when the argument is not a var.\<close>

definition integrate_func :: "string \<Rightarrow> node \<Rightarrow> exn + outcome" where
  "integrate_func name arg =
     (case arg of
        Var arg_var \<Rightarrow>
          if name = ''sin'' then
            Inr (Success \<lparr>
              result = Mul (- 1) (Func ''cos'' arg),
              steps = [Line (integral_sign @ '' sin('' @ arg_var @ '') dx = -cos('' @ arg_var @ '') + C'')],
              string = None,
              constant' = Some True\<rparr>)
          else if name = ''cos'' then
            Inr (Success \<lparr>
              result = Func ''sin'' arg,
              steps = [Line (integral_sign @ '' cos('' @ arg_var @ '') dx = sin('' @ arg_var @ '') + C'')],
              string = None,
              constant' = Some True\<rparr>)
          else if name = ''exp'' then
            Inr (Success \<lparr>
              result = Func ''exp'' arg,
              steps = [Line (integral_sign @ '' exp('' @ arg_var @ '') dx = exp('' @ arg_var @ '') + C'')],
              string = None,
              constant' = Some True\<rparr>)
          else Inr (Failure (''Unsupported function: '' @ name))
      | _ \<Rightarrow> Inl (KeyError ''variable''))"

text \<open>The tail of \<open>integrate\<close> and of \<open>differentiate\<close> after the rule returned: an error
  object is passed on; otherwise the result is normalized, rendered, and the suffix
  is appended when \<open>out.get("constant")\<close> is true. When \<open>normalize\<close> returns the error
  object, \<open>to_string\<close> raises on it.\<close>

definition finish :: "(rat \<Rightarrow> string) \<Rightarrow> exn + outcome \<Rightarrow> string \<Rightarrow> string \<Rightarrow> exn + outcome" where
  "finish fl rule_out mode var_name =
     (case rule_out of
        Inl x \<Rightarrow> Inl x
      | Inr (Failure reason) \<Rightarrow> Inr (Failure reason)
      | Inr (Success out) \<Rightarrow>
          (case normalize (result out) of
             Inl x \<Rightarrow> Inl x
           | Inr r \<Rightarrow>
               (case to_string fl r mode var_name of
                  Inl x \<Rightarrow> Inl x
                | Inr s \<Rightarrow>
                    Inr (Success (out\<lparr>
                      result := r,
                      string := Some (if constant' out = Some True then s @ '' + C'' else s)\<rparr>)))))"

text \<open>
  \<open>integrate\<close> with \<open>integrate_mul\<close> and \<open>integrate_sum\<close>, which call it back.
  \<open>integrate_sum_loop\<close> is the loop of \<open>integrate_sum\<close> with its accumulators
  \<open>integrated_terms\<close> and \<open>all_steps\<close>; it returns a failing term's result as it is.
  \<open>expr.get("type")\<close> of the error object is \<open>None\<close>, which reaches the last branch.
\<close>

function integrate :: "(rat \<Rightarrow> string) \<Rightarrow> node \<Rightarrow> string \<Rightarrow> string \<Rightarrow> exn + outcome"
and integrate_mul :: "(rat \<Rightarrow> string) \<Rightarrow> rat \<Rightarrow> node \<Rightarrow> string \<Rightarrow> string \<Rightarrow> exn + outcome"
and integrate_sum :: "(rat \<Rightarrow> string) \<Rightarrow> node list \<Rightarrow> string \<Rightarrow> string \<Rightarrow> exn + outcome"
and integrate_sum_loop ::
  "(rat \<Rightarrow> string) \<Rightarrow> node list \<Rightarrow> string \<Rightarrow> string \<Rightarrow> node list \<Rightarrow> step list list \<Rightarrow> exn + outcome"
where
  "integrate fl (Const v) mode var_name = finish fl (integrate_const v) mode var_name"
| "integrate fl (Var x) mode var_name = finish fl (integrate_var (Var x)) mode var_name"
| "integrate fl (Power b n) mode var_name = finish fl (integrate_power b n) mode var_name"
| "integrate fl (Mul c e) mode var_name =
     finish fl (integrate_mul fl c e mode var_name) mode var_name"
| "integrate fl (Prod fs) mode var_name =
     Inr (Failure ''Integration of products not implemented yet'')"
| "integrate fl (Sum ts) mode var_name =
     finish fl (integrate_sum fl ts mode var_name) mode var_name"
| "integrate fl (Func name a) mode var_name = finish fl (integrate_func name a) mode var_name"
| "integrate fl (ErrorObj r) mode var_name =
     Inr (Failure ''Unsupported Expression Type: None'')"
| "integrate_mul fl c e mode var_name =
     (if c = 0 then
        Inr (Success \<lparr>
          result = Const 0,
          steps = [Line ''Integral of 0 is 0''],
          string = None,
          constant' = Some True\<rparr>)
      else
        (case integrate fl e mode var_name of
           Inl x \<Rightarrow> Inl x
         | Inr (Failure reason) \<Rightarrow> Inr (Failure reason)
         | Inr (Success sub) \<Rightarrow>
             (case result sub of
                ErrorObj reason \<Rightarrow> Inl (KeyError ''type'')
              | Const v \<Rightarrow>
                  Inr (Success \<lparr>
                    result = Const (c * v),
                    steps = Line ''Combined Constant Factors'' # steps sub,
                    string = None,
                    constant' = Some True\<rparr>)
              | _ \<Rightarrow>
                  Inr (Success \<lparr>
                    result = Mul c (result sub),
                    steps = Line (''Extracted the constant '' @ str_value c @ '':'') # steps sub,
                    string = None,
                    constant' = Some True\<rparr>))))"
| "integrate_sum fl ts mode var_name = integrate_sum_loop fl ts mode var_name [] []"
| "integrate_sum_loop fl [] mode var_name integrated_terms all_steps =
     Inr (Success \<lparr>
       result = Sum integrated_terms,
       steps = Line ''Using Linearity of Integration:'' # map Nested all_steps,
       string = None,
       constant' = Some True\<rparr>)"
| "integrate_sum_loop fl (t # ts) mode var_name integrated_terms all_steps =
     (case integrate fl t mode var_name of
        Inl x \<Rightarrow> Inl x
      | Inr (Failure reason) \<Rightarrow> Inr (Failure reason)
      | Inr (Success sub) \<Rightarrow>
          integrate_sum_loop fl ts mode var_name
            (integrated_terms @ [result sub]) (all_steps @ [steps sub]))"
  by pat_completeness auto
termination
  by (relation "measure (\<lambda>x. case x of
        Inl (Inl (fl, e, m, v)) \<Rightarrow> 2 * size e + 1
      | Inl (Inr (fl, c, e, m, v)) \<Rightarrow> 2 * size e + 2
      | Inr (Inl (fl, ts, m, v)) \<Rightarrow> 2 * size_list size ts + 2
      | Inr (Inr (fl, ts, m, v, a, b)) \<Rightarrow> 2 * size_list size ts + 1)") auto

definition differentiate_const :: "rat \<Rightarrow> exn + outcome" where
  "differentiate_const c =
     Inr (Success \<lparr>
       result = Const 0,
       steps = [Line (''d/dx('' @ str_value c @ '') = 0'')],
       string = None,
       constant' = None\<rparr>)"

definition differentiate_var :: "node \<Rightarrow> exn + outcome" where
  "differentiate_var expr =
     Inr (Success \<lparr>
       result = Const 1,
       steps = [Line ''d/dx(x) = 1''],
       string = None,
       constant' = None\<rparr>)"

definition differentiate_power :: "node \<Rightarrow> int \<Rightarrow> exn + outcome" where
  "differentiate_power base n =
     (case base of
        ErrorObj reason \<Rightarrow> Inl (KeyError ''type'')
      | Var x \<Rightarrow>
          if n = 0 then
            Inr (Success \<lparr>
              result = Const 0,
              steps = [Line ''d/dx(x^0) = d/dx(1) = 0''],
              string = None,
              constant' = None\<rparr>)
          else
            Inr (Success \<lparr>
              result = Mul (of_int n) (Power base (n - 1)),
              steps = [Line (''d/dx(x^'' @ str_int n @ '') = '' @ str_int n @ ''x^(''
                             @ str_int (n - 1) @ '')'')],
              string = None,
              constant' = None\<rparr>)
      | _ \<Rightarrow> Inr (Failure ''Power rule only supports x^n (no chain rule yet)''))"

definition differentiate_func :: "string \<Rightarrow> node \<Rightarrow> exn + outcome" where
  "differentiate_func name arg =
     (case arg of
        Var arg_var \<Rightarrow>
          if name = ''sin'' then
            Inr (Success \<lparr>
              result = Func ''cos'' arg,
              steps = [Line (''d/dx(sin('' @ arg_var @ '')) = cos('' @ arg_var @ '')'')],
              string = None,
              constant' = None\<rparr>)
          else if name = ''cos'' then
            Inr (Success \<lparr>
              result = Mul (- 1) (Func ''sin'' arg),
              steps = [Line (''d/dx(cos('' @ arg_var @ '')) = -sin('' @ arg_var @ '')'')],
              string = None,
              constant' = None\<rparr>)
          else if name = ''exp'' then
            Inr (Success \<lparr>
              result = Func ''exp'' arg,
              steps = [Line (''d/dx(exp('' @ arg_var @ '')) = exp('' @ arg_var @ '')'')],
              string = None,
              constant' = None\<rparr>)
          else Inr (Failure (''Unsupported Function: '' @ name))
      | _ \<Rightarrow> Inl (KeyError ''variable''))"

function differentiate :: "(rat \<Rightarrow> string) \<Rightarrow> node \<Rightarrow> string \<Rightarrow> string \<Rightarrow> exn + outcome"
and differentiate_mul :: "(rat \<Rightarrow> string) \<Rightarrow> rat \<Rightarrow> node \<Rightarrow> string \<Rightarrow> string \<Rightarrow> exn + outcome"
and differentiate_sum :: "(rat \<Rightarrow> string) \<Rightarrow> node list \<Rightarrow> string \<Rightarrow> string \<Rightarrow> exn + outcome"
and differentiate_sum_loop ::
  "(rat \<Rightarrow> string) \<Rightarrow> node list \<Rightarrow> string \<Rightarrow> string \<Rightarrow> node list \<Rightarrow> step list list \<Rightarrow> exn + outcome"
where
  "differentiate fl (Const v) mode var_name = finish fl (differentiate_const v) mode var_name"
| "differentiate fl (Var x) mode var_name = finish fl (differentiate_var (Var x)) mode var_name"
| "differentiate fl (Power b n) mode var_name = finish fl (differentiate_power b n) mode var_name"
| "differentiate fl (Mul c e) mode var_name =
     finish fl (differentiate_mul fl c e mode var_name) mode var_name"
| "differentiate fl (Prod fs) mode var_name = Inr (Failure ''Product rule not implemented yet'')"
| "differentiate fl (Sum ts) mode var_name =
     finish fl (differentiate_sum fl ts mode var_name) mode var_name"
| "differentiate fl (Func name a) mode var_name =
     finish fl (differentiate_func name a) mode var_name"
| "differentiate fl (ErrorObj r) mode var_name =
     Inr (Failure ''Unsupported Expression Type: None'')"
| "differentiate_mul fl c e mode var_name =
     (case differentiate fl e mode var_name of
        Inl x \<Rightarrow> Inl x
      | Inr (Failure reason) \<Rightarrow> Inr (Failure reason)
      | Inr (Success sub) \<Rightarrow>
          Inr (Success \<lparr>
            result = Mul c (result sub),
            steps = Line (''Extracted the constant '' @ str_value c @ '':'') # steps sub,
            string = None,
            constant' = None\<rparr>))"
| "differentiate_sum fl ts mode var_name = differentiate_sum_loop fl ts mode var_name [] []"
| "differentiate_sum_loop fl [] mode var_name differentiated_terms all_steps =
     Inr (Success \<lparr>
       result = Sum differentiated_terms,
       steps = Line ''Using Linearity of Differentiation:'' # map Nested all_steps,
       string = None,
       constant' = None\<rparr>)"
| "differentiate_sum_loop fl (t # ts) mode var_name differentiated_terms all_steps =
     (case differentiate fl t mode var_name of
        Inl x \<Rightarrow> Inl x
      | Inr (Failure reason) \<Rightarrow> Inr (Failure reason)
      | Inr (Success sub) \<Rightarrow>
          differentiate_sum_loop fl ts mode var_name
            (differentiated_terms @ [result sub]) (all_steps @ [steps sub]))"
  by pat_completeness auto
termination
  by (relation "measure (\<lambda>x. case x of
        Inl (Inl (fl, e, m, v)) \<Rightarrow> 2 * size e + 1
      | Inl (Inr (fl, c, e, m, v)) \<Rightarrow> 2 * size e + 2
      | Inr (Inl (fl, ts, m, v)) \<Rightarrow> 2 * size_list size ts + 2
      | Inr (Inr (fl, ts, m, v, a, b)) \<Rightarrow> 2 * size_list size ts + 1)") auto

section \<open>Structural invariants (\<open>examples/invariants.py\<close>)\<close>

text \<open>
  \<open>walk(expr, fn)\<close> applies a check to every node of a tree. Each invariant is a check on
  one node, walked over the tree; a check says nothing about a node of another type.
  The Python \<open>walk\<close> raises on a value that is not a node; \<open>is_tree\<close> states that a
  value holds no error object anywhere.
\<close>

fun walk :: "(node \<Rightarrow> bool) \<Rightarrow> node \<Rightarrow> bool" where
  "walk chk (Const v) = chk (Const v)"
| "walk chk (Var x) = chk (Var x)"
| "walk chk (Power b e) = (chk (Power b e) \<and> walk chk b)"
| "walk chk (Mul c e) = (chk (Mul c e) \<and> walk chk e)"
| "walk chk (Prod fs) = (chk (Prod fs) \<and> list_all (walk chk) fs)"
| "walk chk (Sum ts) = (chk (Sum ts) \<and> list_all (walk chk) ts)"
| "walk chk (Func n a) = (chk (Func n a) \<and> walk chk a)"
| "walk chk (ErrorObj r) = chk (ErrorObj r)"

fun is_const :: "node \<Rightarrow> bool" where
  "is_const (Const v) = True"
| "is_const _ = False"

fun is_zero_const :: "node \<Rightarrow> bool" where
  "is_zero_const (Const v) = (v = 0)"
| "is_zero_const _ = False"

fun is_var :: "node \<Rightarrow> bool" where
  "is_var (Var x) = True"
| "is_var _ = False"

fun is_mul :: "node \<Rightarrow> bool" where
  "is_mul (Mul c e) = True"
| "is_mul _ = False"

fun is_sum :: "node \<Rightarrow> bool" where
  "is_sum (Sum ts) = True"
| "is_sum _ = False"

fun is_prod :: "node \<Rightarrow> bool" where
  "is_prod (Prod fs) = True"
| "is_prod _ = False"

text \<open>\<open>ATOMIC = {"var", "power", "func"}\<close>.\<close>

fun is_atomic :: "node \<Rightarrow> bool" where
  "is_atomic (Var x) = True"
| "is_atomic (Power b e) = True"
| "is_atomic (Func n a) = True"
| "is_atomic _ = False"

definition is_tree :: "node \<Rightarrow> bool" where
  "is_tree n = walk (\<lambda>m. \<not> is_error_obj m) n"

text \<open>Invariant 1 (\<open>assert_mul_expr_not_const\<close>, \<open>assert_no_nested_mul\<close>): the inner
  expression of a mul is neither a const nor a mul.\<close>

fun mul_inner_ok :: "node \<Rightarrow> bool" where
  "mul_inner_ok (Mul c e) = (\<not> is_const e \<and> \<not> is_mul e)"
| "mul_inner_ok _ = True"

text \<open>Invariant 2 (\<open>assert_normalized_power\<close>): the exponent of a power is at least 2.\<close>

fun power_exp_ok :: "node \<Rightarrow> bool" where
  "power_exp_ok (Power b e) = (2 \<le> e)"
| "power_exp_ok _ = True"

text \<open>Invariant 3 (\<open>assert_valid_sum\<close>, and the spec): a sum has at least two terms, none
  of them a sum or a zero const.\<close>

fun sum_ok :: "node \<Rightarrow> bool" where
  "sum_ok (Sum ts) = (2 \<le> length ts \<and> list_all (\<lambda>t. \<not> is_sum t \<and> \<not> is_zero_const t) ts)"
| "sum_ok _ = True"

text \<open>Invariant 4 (\<open>assert_valid_prod\<close>, \<open>assert_no_nested_prod\<close>, \<open>assert_prod_atomic\<close>):
  a prod has at least two factors, each a var, a power or a func.\<close>

fun prod_atomic_ok :: "node \<Rightarrow> bool" where
  "prod_atomic_ok (Prod fs) = (2 \<le> length fs \<and> list_all is_atomic fs)"
| "prod_atomic_ok _ = True"

text \<open>Invariant 5: the factors of a prod are ordered by kind, var before power before
  func (several factors of a kind may follow each other, as in \<open>sin(x)cos(x)\<close>).\<close>

fun prod_order_ok :: "node \<Rightarrow> bool" where
  "prod_order_ok (Prod fs) = sorted (map prod_order_key fs)"
| "prod_order_ok _ = True"

text \<open>Invariant 6 (\<open>assert_prod_power_base\<close>): a power that is a factor of a prod has a
  var as its base.\<close>

fun var_based :: "node \<Rightarrow> bool" where
  "var_based (Power b e) = is_var b"
| "var_based _ = True"

fun prod_power_base_ok :: "node \<Rightarrow> bool" where
  "prod_power_base_ok (Prod fs) = list_all var_based fs"
| "prod_power_base_ok _ = True"

text \<open>Invariant 7 (\<open>assert_func_arg_is_var\<close>): the argument of a func is a var.\<close>

fun func_arg_ok :: "node \<Rightarrow> bool" where
  "func_arg_ok (Func n a) = is_var a"
| "func_arg_ok _ = True"

text \<open>Invariant 8 (\<open>assert_valid_func_name\<close>): \<open>ALLOWED_FUNCS = {"sin", "cos", "exp"}\<close>.\<close>

fun func_name_ok :: "node \<Rightarrow> bool" where
  "func_name_ok (Func n a) = (n = ''sin'' \<or> n = ''cos'' \<or> n = ''exp'')"
| "func_name_ok _ = True"

text \<open>\<open>assert_all_invariants\<close> with the two conditions the spec adds (the terms of a sum,
  the order of factors), on a value that is a tree.\<close>

definition all_invariants :: "node \<Rightarrow> bool" where
  "all_invariants n =
     (is_tree n \<and> walk mul_inner_ok n \<and> walk power_exp_ok n \<and> walk sum_ok n
      \<and> walk prod_atomic_ok n \<and> walk prod_order_ok n \<and> walk prod_power_base_ok n
      \<and> walk func_arg_ok n \<and> walk func_name_ok n)"

text \<open>What the parser guarantees of a raw AST beyond its shape: no error object in it and
  no negative exponent (\<open>parse_power\<close> rejects one). The spec's data model restricts
  function names to sin, cos and exp; \<open>known_functions\<close> states that of a raw AST.\<close>

fun exp_nonneg :: "node \<Rightarrow> bool" where
  "exp_nonneg (Power b e) = (0 \<le> e)"
| "exp_nonneg _ = True"







text \<open>A rendering for \<open>str(float(value))\<close> where a closed term needs one; no evaluation
  below reaches it.\<close>

definition no_float :: "rat \<Rightarrow> string" where
  "no_float v = ''nan''"

section \<open>Notions for the proofs about \<open>normalize\<close>\<close>

text \<open>The factors that steps 2.5 and 3 of \<open>normalize_prod\<close> count as powers of the
  variable, what each adds to \<open>power_sum\<close>, and the variable node it carries.\<close>

fun variable_power :: "node \<Rightarrow> bool" where
  "variable_power (Var x) = True"
| "variable_power (Power (Var x) e) = True"
| "variable_power _ = False"

fun exponent_of :: "node \<Rightarrow> int" where
  "exponent_of (Var x) = 1"
| "exponent_of (Power (Var x) e) = e"
| "exponent_of _ = 0"

fun variable_of :: "node \<Rightarrow> node" where
  "variable_of (Power b e) = b"
| "variable_of n = n"

text \<open>A power whose base is an error object: steps 2.5 and 3 raise on it.\<close>

fun error_based :: "node \<Rightarrow> bool" where
  "error_based (Power (ErrorObj r) e) = True"
| "error_based _ = False"

text \<open>The factor that step 3 appends for the combined power of the variable.\<close>

definition combined_power :: "node list \<Rightarrow> node list" where
  "combined_power fs =
     (case find variable_power fs of
        None \<Rightarrow> []
      | Some f \<Rightarrow>
          (let power_sum = sum_list (map exponent_of fs)
           in if power_sum = 1 then [variable_of f]
              else if 2 \<le> power_sum then [Power (variable_of f) power_sum]
              else []))"

text \<open>The shape of the values that \<open>normalize\<close> returns, node by node: enough for a
  second normalization to change nothing, but for a mul with coefficient 1.\<close>

fun normal_shape :: "node \<Rightarrow> bool" where
  "normal_shape (Power b e) = (e \<noteq> 0 \<and> e \<noteq> 1)"
| "normal_shape (Mul c e) = (c \<noteq> 0 \<and> \<not> is_const e \<and> \<not> is_mul e \<and> \<not> is_error_obj e)"
| "normal_shape (Sum ts) =
     (2 \<le> length ts
      \<and> list_all (\<lambda>t. \<not> is_sum t \<and> \<not> is_zero_const t \<and> \<not> is_error_obj t) ts)"
| "normal_shape (Prod fs) =
     (2 \<le> length fs \<and> list_all is_atomic fs \<and> sorted (map prod_order_key fs)
      \<and> rebuild_prod 1 fs = Inr (Prod fs))"
| "normal_shape (Func n a) = is_var a"
| "normal_shape _ = True"

fun unit_free :: "node \<Rightarrow> bool" where
  "unit_free (Mul c e) = (c \<noteq> 1)"
| "unit_free _ = True"

text \<open>The trees that the rewrite rules hand to \<open>normalize\<close>: no prod in them, every
  func applied to a var and named sin, cos or exp, no negative exponent.\<close>

definition simple :: "node \<Rightarrow> bool" where
  "simple n =
     (is_tree n \<and> walk (\<lambda>m. \<not> is_prod m) n \<and> walk func_arg_ok n \<and> walk exp_nonneg n
      \<and> walk func_name_ok n)"

section \<open>Arithmetic of unit fractions\<close>

lemma quotient_of_unit_fraction:
  "0 < k \<Longrightarrow> quotient_of (Fract 1 k) = (1, k)"
  by (simp add: quotient_of_Fract Rat.normalize_def)

lemma Fract_unit_nonzero: "k \<noteq> 0 \<Longrightarrow> Fract 1 k \<noteq> 0"
  by (simp add: Zero_rat_def eq_rat)

lemma Fract_unit_eq_one: "k \<noteq> 0 \<Longrightarrow> (Fract 1 k = 1) = (k = 1)"
  by (subst One_rat_def) (auto simp add: eq_rat)

lemma Fract_unit_ne_minus_one: "0 < k \<Longrightarrow> Fract 1 k \<noteq> - 1"
proof -
  assume k: "0 < k"
  have "Fract 1 k = - 1 \<longleftrightarrow> Fract 1 k = Fract (- 1) 1"
    by (simp add: Fract_of_int_eq)
  also have "\<dots> \<longleftrightarrow> False"
    using k by (simp add: eq_rat)
  finally show ?thesis by simp
qed

section \<open>Products are not rewritten\<close>

text \<open>
  C6. For every prod node, \<open>differentiate\<close> returns the failure whose reason says that the
  product rule is not implemented, and \<open>integrate\<close> returns the failure whose reason says
  that integration of products is not implemented; neither succeeds on a prod.
\<close>

theorem prod_always_fails:
  "differentiate fl (Prod fs) mode var_name = Inr (Failure ''Product rule not implemented yet'')
   \<and> integrate fl (Prod fs) mode var_name
       = Inr (Failure ''Integration of products not implemented yet'')"
  by simp

section \<open>The integral of \<open>x^3\<close>\<close>

lemma integrate_power_x_cubed:
  "integrate_power (Var ''x'') 3 =
     Inr (Success \<lparr>
       result = Mul (Fract 1 4) (Power (Var ''x'') 4),
       steps = [Line (integral_sign @ '' x^3 dx = x^4/4 + C'')],
       string = None,
       constant' = Some True\<rparr>)"
  by (simp add: integrate_power_def str_int_def digit_char_def)

lemma normalize_quarter_x4:
  "normalize (Mul (Fract 1 4) (Power (Var ''x'') 4)) = Inr (Mul (Fract 1 4) (Power (Var ''x'') 4))"
  by (simp add: Fract_unit_nonzero Fract_unit_eq_one)

lemma to_string_quarter_x4:
  "to_string fl (Mul (Fract 1 4) (Power (Var ''x'') 4)) ''fraction'' ''x'' = Inr ''1/4x^4''"
  by (simp add: quotient_of_unit_fraction str_int_def digit_char_def Fract_unit_ne_minus_one
      Let_def)

text \<open>
  C8. \<open>integrate\<close> applied to the canonical AST of \<open>x^3\<close> in fraction mode succeeds, and its
  rendered string is \<open>1/4x^4\<close> followed by the constant-of-integration suffix: \<open>1/4x^4 + C\<close>.
\<close>

theorem integrate_x_cubed:
  "integrate fl (Power (Var ''x'') 3) ''fraction'' ''x'' =
     Inr (Success \<lparr>
       result = Mul (Fract 1 4) (Power (Var ''x'') 4),
       steps = [Line (integral_sign @ '' x^3 dx = x^4/4 + C'')],
       string = Some ''1/4x^4 + C'',
       constant' = Some True\<rparr>)"
  by (simp add: integrate_power_x_cubed normalize_quarter_x4 to_string_quarter_x4 finish_def
      del: normalize.simps to_string.simps)

section \<open>The tail of the dispatchers\<close>

lemma finish_Success:
  "finish fl r mode var_name = Inr (Success out) \<Longrightarrow>
     \<exists>o' n s. r = Inr (Success o') \<and> normalize (result o') = Inr n
        \<and> to_string fl n mode var_name = Inr s
        \<and> out = o'\<lparr>result := n, string := Some (if constant' o' = Some True then s @ '' + C'' else s)\<rparr>"
  by (auto simp add: finish_def split: sum.splits outcome.splits)

lemma finish_Failure:
  "finish fl r mode var_name = Inr (Failure reason) \<longleftrightarrow> r = Inr (Failure reason)"
  by (auto simp add: finish_def split: sum.splits outcome.splits)

lemma finish_of_Failure [simp]:
  "finish fl (Inr (Failure reason)) mode var_name = Inr (Failure reason)"
  by (simp add: finish_def)

section \<open>The power rule of integration\<close>

lemma to_string_const_Inr: "\<exists>s. to_string fl (Const c) mode var_name = Inr s"
  by simp

lemma to_string_var_power: "\<exists>s. to_string fl (Power (Var x) k) mode var_name = Inr s"
  by simp

lemma to_string_mul_var_power:
  "\<exists>s. to_string fl (Mul c (Power (Var x) k)) mode var_name = Inr s"
  by (simp add: Let_def)

text \<open>
  C7. \<open>integrate\<close> on \<open>Power(base, n)\<close>: it fails when the base is a node other than a
  var; it fails with another reason, which names the logarithm, when \<open>n = -1\<close>; otherwise
  it succeeds and the result is \<open>(1/(n+1)) * base^(n+1)\<close> after normalization.
\<close>

theorem integrate_power_cases:
  "(\<not> is_error_obj base \<and> \<not> is_var base \<longrightarrow>
      integrate fl (Power base n) mode var_name
        = Inr (Failure ''Power rule only supports x^n (no chain rule yet)''))
   \<and> integrate fl (Power (Var x) (- 1)) mode var_name
        = Inr (Failure ''Integral of x^-1 needs Logarithms(not implemented yet)'')
   \<and> (n \<noteq> - 1 \<longrightarrow>
        (\<exists>out. integrate fl (Power (Var x) n) mode var_name = Inr (Success out)
           \<and> normalize (Mul (Fract 1 (n + 1)) (Power (Var x) (n + 1))) = Inr (result out)
           \<and> result out = (if n = 0 then Var x
                             else Mul (Fract 1 (n + 1)) (Power (Var x) (n + 1)))))"
proof (intro conjI impI)
  assume "\<not> is_error_obj base \<and> \<not> is_var base"
  then show "integrate fl (Power base n) mode var_name
        = Inr (Failure ''Power rule only supports x^n (no chain rule yet)'')"
    by (cases base) (simp_all add: integrate_power_def)
next
  show "integrate fl (Power (Var x) (- 1)) mode var_name
        = Inr (Failure ''Integral of x^-1 needs Logarithms(not implemented yet)'')"
    by (simp add: integrate_power_def)
next
  assume n: "n \<noteq> - 1"
  then have k: "n + 1 \<noteq> 0" by arith
  have one: "(n + 1 = 1) = (n = 0)" by arith
  have norm: "normalize (Mul (Fract 1 (n + 1)) (Power (Var x) (n + 1)))
      = Inr (if n = 0 then Var x else Mul (Fract 1 (n + 1)) (Power (Var x) (n + 1)))"
    using k by (simp add: Fract_unit_nonzero Fract_unit_eq_one one)
  obtain s where s: "to_string fl (if n = 0 then Var x
        else Mul (Fract 1 (n + 1)) (Power (Var x) (n + 1))) mode var_name = Inr s"
    using to_string_mul_var_power [of fl "Fract 1 (n + 1)" x "n + 1" mode var_name]
    by (cases "n = 0") auto
  show "\<exists>out. integrate fl (Power (Var x) n) mode var_name = Inr (Success out)
           \<and> normalize (Mul (Fract 1 (n + 1)) (Power (Var x) (n + 1))) = Inr (result out)
           \<and> result out = (if n = 0 then Var x
                             else Mul (Fract 1 (n + 1)) (Power (Var x) (n + 1)))"
    using n norm s
    by (simp add: integrate_power_def finish_def del: normalize.simps to_string.simps)
qed

theorem integrate_power_cases_witness:
  "integrate no_float (Power (Func ''sin'' (Var ''x'')) 2) ''fraction'' ''x''
     = Inr (Failure ''Power rule only supports x^n (no chain rule yet)'')
   \<and> integrate no_float (Power (Var ''x'') (- 1)) ''fraction'' ''x''
     = Inr (Failure ''Integral of x^-1 needs Logarithms(not implemented yet)'')
   \<and> (\<exists>out. integrate no_float (Power (Var ''x'') 3) ''fraction'' ''x'' = Inr (Success out)
         \<and> normalize (Mul (Fract 1 (3 + 1)) (Power (Var ''x'') (3 + 1))) = Inr (result out)
         \<and> result out = Mul (Fract 1 4) (Power (Var ''x'') 4))"
proof -
  have a: "\<not> is_error_obj (Func ''sin'' (Var ''x'')) \<and> \<not> is_var (Func ''sin'' (Var ''x''))"
    by simp
  have b: "(3::int) \<noteq> - 1" by simp
  note t = integrate_power_cases [of "Func ''sin'' (Var ''x'')" no_float 2 "''fraction''" "''x''" "''x''"]
  note u = integrate_power_cases [of "Func ''sin'' (Var ''x'')" no_float 3 "''fraction''" "''x''" "''x''"]
  from t a have 1: "integrate no_float (Power (Func ''sin'' (Var ''x'')) 2) ''fraction'' ''x''
     = Inr (Failure ''Power rule only supports x^n (no chain rule yet)'')" by blast
  from u have 2: "integrate no_float (Power (Var ''x'') (- 1)) ''fraction'' ''x''
     = Inr (Failure ''Integral of x^-1 needs Logarithms(not implemented yet)'')" by blast
  from u b have 3: "\<exists>out. integrate no_float (Power (Var ''x'') 3) ''fraction'' ''x'' = Inr (Success out)
         \<and> normalize (Mul (Fract 1 (3 + 1)) (Power (Var ''x'') (3 + 1))) = Inr (result out)
         \<and> result out = (if (3::int) = 0 then Var ''x'' else Mul (Fract 1 (3 + 1)) (Power (Var ''x'') (3 + 1)))"
    by blast
  then have 4: "\<exists>out. integrate no_float (Power (Var ''x'') 3) ''fraction'' ''x'' = Inr (Success out)
         \<and> normalize (Mul (Fract 1 (3 + 1)) (Power (Var ''x'') (3 + 1))) = Inr (result out)
         \<and> result out = Mul (Fract 1 4) (Power (Var ''x'') 4)"
    by simp
  from 1 2 4 show ?thesis by blast
qed

section \<open>The constant-of-integration flag\<close>

lemma integrate_sum_loop_constant:
  "integrate_sum_loop fl ts mode var_name acc st = Inr (Success out) \<Longrightarrow>
     constant' out = Some True"
  by (induction ts arbitrary: acc st) (auto split: sum.splits outcome.splits)

lemma integrate_mul_constant:
  "integrate_mul fl c e mode var_name = Inr (Success out) \<Longrightarrow> constant' out = Some True"
  by (auto split: if_splits sum.splits outcome.splits node.splits)

lemma integrate_rule_constant:
  "integrate_const c = Inr (Success out) \<Longrightarrow> constant' out = Some True"
  "integrate_var e = Inr (Success out) \<Longrightarrow> constant' out = Some True"
  "integrate_power b n = Inr (Success out) \<Longrightarrow> constant' out = Some True"
  "integrate_func name a = Inr (Success out) \<Longrightarrow> constant' out = Some True"
  by (auto simp add: integrate_const_def integrate_var_def integrate_power_def
      integrate_func_def split: if_splits node.splits)

lemma finish_constant:
  assumes "finish fl r mode var_name = Inr (Success out)"
    and "\<And>o'. r = Inr (Success o') \<Longrightarrow> constant' o' = Some True"
  shows "constant' out = Some True \<and> (\<exists>s. string out = Some (s @ '' + C''))"
proof -
  from finish_Success [OF assms(1)] obtain o' n s where
    r: "r = Inr (Success o')" and
    out: "out = o'\<lparr>result := n,
      string := Some (if constant' o' = Some True then s @ '' + C'' else s)\<rparr>"
    by blast
  from assms(2) [OF r] have "constant' o' = Some True" .
  with out show ?thesis by simp
qed

text \<open>
  C4, as the code has it. Every successful \<open>integrate\<close> call returns the flag set, the
  zero-coefficient mul included, and the rendered string ends with the suffix; the
  rules that recurse (\<open>integrate_mul\<close>, \<open>integrate_sum\<close>) set the flag themselves, so no
  flag of a sub-result is cleared on the way up.
\<close>

theorem integrate_sets_constant:
  "(integrate fl e mode var_name = Inr (Success out) \<longrightarrow>
      constant' out = Some True \<and> (\<exists>s. string out = Some (s @ '' + C'')))
   \<and> (integrate_mul fl c e mode var_name = Inr (Success out) \<longrightarrow> constant' out = Some True)
   \<and> (integrate_sum fl ts mode var_name = Inr (Success out) \<longrightarrow> constant' out = Some True)"
proof -
  have main: "constant' out = Some True \<and> (\<exists>s. string out = Some (s @ '' + C''))"
    if a: "integrate fl e mode var_name = Inr (Success out)"
  proof (cases e)
    case (Const v)
    with a show ?thesis
      by (auto intro!: finish_constant [of fl "integrate_const v" mode var_name out]
          dest: integrate_rule_constant)
  next
    case (Var x)
    with a show ?thesis
      by (auto intro!: finish_constant [of fl "integrate_var (Var x)" mode var_name out]
          dest: integrate_rule_constant)
  next
    case (Power b n)
    with a show ?thesis
      by (auto intro!: finish_constant [of fl "integrate_power b n" mode var_name out]
          dest: integrate_rule_constant)
  next
    case (Mul c' e')
    with a show ?thesis
      by (auto intro!: finish_constant [of fl "integrate_mul fl c' e' mode var_name" mode var_name out]
          dest: integrate_mul_constant simp del: integrate_mul.simps)
  next
    case (Prod fs)
    with a show ?thesis by simp
  next
    case (Sum ts')
    with a show ?thesis
      by (auto intro!: finish_constant [of fl "integrate_sum fl ts' mode var_name" mode var_name out]
          dest: integrate_sum_loop_constant)
  next
    case (Func name arg)
    with a show ?thesis
      by (auto intro!: finish_constant [of fl "integrate_func name arg" mode var_name out]
          dest: integrate_rule_constant)
  next
    case (ErrorObj r)
    with a show ?thesis by simp
  qed
  have mul: "constant' out = Some True"
    if "integrate_mul fl c e mode var_name = Inr (Success out)"
    using that by (rule integrate_mul_constant)
  have sum: "constant' out = Some True"
    if "integrate_sum fl ts mode var_name = Inr (Success out)"
    using that by (auto dest: integrate_sum_loop_constant)
  from main mul sum show ?thesis by blast
qed

text \<open>The flag is set in the zero-coefficient case.\<close>

theorem integrate_zero_mul_sets_constant:
  "integrate no_float (Mul 0 (Var ''x'')) ''fraction'' ''x'' =
     Inr (Success \<lparr>
       result = Const 0,
       steps = [Line ''Integral of 0 is 0''],
       string = Some ''0 + C'',
       constant' = Some True\<rparr>)"
  by (simp add: finish_def str_int_def digit_char_def)

theorem integrate_sets_constant_witness:
  "constant' \<lparr>result = Const 0, steps = [Line ''Integral of 0 is 0''],
       string = Some ''0 + C'', constant' = Some True\<rparr> = Some True
   \<and> integrate no_float (Mul 0 (Var ''x'')) ''fraction'' ''x'' =
     Inr (Success \<lparr>result = Const 0, steps = [Line ''Integral of 0 is 0''],
       string = Some ''0 + C'', constant' = Some True\<rparr>)"
proof -
  have e: "integrate no_float (Mul 0 (Var ''x'')) ''fraction'' ''x'' =
     Inr (Success \<lparr>result = Const 0, steps = [Line ''Integral of 0 is 0''],
       string = Some ''0 + C'', constant' = Some True\<rparr>)"
    by (simp add: finish_def str_int_def digit_char_def)
  from integrate_sets_constant [of no_float "Mul 0 (Var ''x'')" "''fraction''" "''x''"
      "\<lparr>result = Const 0, steps = [Line ''Integral of 0 is 0''],
       string = Some ''0 + C'', constant' = Some True\<rparr>" 0 "[]"] e
  show ?thesis by blast
qed

section \<open>Failure of a term of a sum\<close>

lemma integrate_sum_loop_failure:
  "\<forall>p\<in>set pre. \<exists>out. integrate fl p mode var_name = Inr (Success out) \<Longrightarrow>
   integrate fl t mode var_name = Inr (Failure reason) \<Longrightarrow>
   integrate_sum_loop fl (pre @ t # post) mode var_name acc st = Inr (Failure reason)"
  by (induction pre arbitrary: acc st) auto

lemma differentiate_sum_loop_failure:
  "\<forall>p\<in>set pre. \<exists>out. differentiate fl p mode var_name = Inr (Success out) \<Longrightarrow>
   differentiate fl t mode var_name = Inr (Failure reason) \<Longrightarrow>
   differentiate_sum_loop fl (pre @ t # post) mode var_name acc st = Inr (Failure reason)"
  by (induction pre arbitrary: acc st) auto

text \<open>
  C5. In a sum whose terms before \<open>t\<close> are rewritten successfully and whose term \<open>t\<close>
  fails, the call on the sum returns the failure of \<open>t\<close> as it is, whatever the terms
  after \<open>t\<close> are: they are not evaluated. This holds of \<open>integrate\<close> and of
  \<open>differentiate\<close>.
\<close>

theorem sum_first_failure:
  "((\<forall>p\<in>set pre. \<exists>out. integrate fl p mode var_name = Inr (Success out)) \<longrightarrow>
      integrate fl t mode var_name = Inr (Failure reason) \<longrightarrow>
      integrate fl (Sum (pre @ t # post)) mode var_name = integrate fl t mode var_name)
   \<and> ((\<forall>p\<in>set pre. \<exists>out. differentiate fl p mode var_name = Inr (Success out)) \<longrightarrow>
      differentiate fl t mode var_name = Inr (Failure reason) \<longrightarrow>
      differentiate fl (Sum (pre @ t # post)) mode var_name = differentiate fl t mode var_name)"
  by (simp add: integrate_sum_loop_failure differentiate_sum_loop_failure
      del: integrate_sum_loop.simps differentiate_sum_loop.simps)

lemma integrate_var_succeeds:
  "\<exists>out. integrate fl (Var x) mode var_name = Inr (Success out)"
  by (simp add: integrate_var_def finish_def Fract_unit_nonzero Fract_unit_eq_one
      Fract_unit_ne_minus_one Let_def)

lemma differentiate_var_succeeds:
  "\<exists>out. differentiate fl (Var x) mode var_name = Inr (Success out)"
  by (simp add: differentiate_var_def finish_def)

theorem sum_first_failure_witness:
  "integrate no_float (Sum ([Var ''x''] @ Prod [Var ''x'', Func ''sin'' (Var ''x'')]
        # [Func ''sin'' (Const 1)])) ''fraction'' ''x''
     = Inr (Failure ''Integration of products not implemented yet'')
   \<and> differentiate no_float (Sum ([Var ''x''] @ Prod [Var ''x'', Func ''sin'' (Var ''x'')]
        # [Func ''sin'' (Const 1)])) ''fraction'' ''x''
     = Inr (Failure ''Product rule not implemented yet'')
   \<and> integrate no_float (Func ''sin'' (Const 1)) ''fraction'' ''x'' = Inl (KeyError ''variable'')"
proof -
  let ?t = "Prod [Var ''x'', Func ''sin'' (Var ''x'')]"
  have pre_i: "\<forall>p\<in>set [Var ''x'']. \<exists>out. integrate no_float p ''fraction'' ''x'' = Inr (Success out)"
    using integrate_var_succeeds by simp
  have pre_d: "\<forall>p\<in>set [Var ''x'']. \<exists>out. differentiate no_float p ''fraction'' ''x'' = Inr (Success out)"
    using differentiate_var_succeeds by simp
  have ti: "integrate no_float ?t ''fraction'' ''x''
      = Inr (Failure ''Integration of products not implemented yet'')"
    by simp
  have td: "differentiate no_float ?t ''fraction'' ''x''
      = Inr (Failure ''Product rule not implemented yet'')"
    by simp
  have post: "integrate no_float (Func ''sin'' (Const 1)) ''fraction'' ''x''
      = Inl (KeyError ''variable'')"
    by (simp add: integrate_func_def finish_def)
  from sum_first_failure [of "[Var ''x'']" no_float "''fraction''" "''x''" ?t
      "''Integration of products not implemented yet''" "[Func ''sin'' (Const 1)]"] pre_i ti
  have 1: "integrate no_float (Sum ([Var ''x''] @ ?t # [Func ''sin'' (Const 1)])) ''fraction'' ''x''
     = Inr (Failure ''Integration of products not implemented yet'')"
    by metis
  from sum_first_failure [of "[Var ''x'']" no_float "''fraction''" "''x''" ?t
      "''Product rule not implemented yet''" "[Func ''sin'' (Const 1)]"] pre_d td
  have 2: "differentiate no_float (Sum ([Var ''x''] @ ?t # [Func ''sin'' (Const 1)])) ''fraction'' ''x''
     = Inr (Failure ''Product rule not implemented yet'')"
    by metis
  from 1 2 post show ?thesis by blast
qed

section \<open>Lists of results\<close>

lemma collect_map_Inr:
  "collect (map f xs) = Inr ys \<Longrightarrow> list_all2 (\<lambda>x y. f x = Inr y) xs ys"
  by (induction xs arbitrary: ys) (auto split: sum.splits)


lemma collect_map_all_Inr:
  "list_all2 (\<lambda>x y. f x = Inr y) xs ys \<Longrightarrow> collect (map f xs) = Inr ys"
  by (induction xs ys rule: list_all2_induct) auto


lemma flatten_factors_map_Inr:
  "flatten_factors (map f xs) = Inr fs \<Longrightarrow> g \<in> set fs \<Longrightarrow>
     \<exists>a\<in>set xs. \<exists>n. f a = Inr n \<and> ((n = g \<and> \<not> is_error_obj g \<and> \<not> is_prod g)
        \<or> (\<exists>gs. n = Prod gs \<and> g \<in> set gs))"
  by (induction xs arbitrary: fs) (auto split: sum.splits node.splits)


section \<open>The exceptions of normalization\<close>


lemma canonical_variable_raises:
  "canonical_variable fs = Inl x \<Longrightarrow> x = KeyError ''type''"
  by (induction fs) (auto split: node.splits)







section \<open>An error object among the children\<close>








section \<open>Steps 2.5 to 5 of \<open>normalize_prod\<close> in closed form\<close>

lemma combine_powers_closed:
  "\<not> list_ex error_based fs \<Longrightarrow>
     combine_powers fs ps other
       = Inr (ps + sum_list (map exponent_of fs), other @ filter (\<lambda>f. \<not> variable_power f) fs)"
proof (induction fs arbitrary: ps other)
  case Nil
  then show ?case by simp
next
  case (Cons f fs)
  show ?case
  proof (cases f)
    case (Power b e)
    with Cons show ?thesis by (cases b) simp_all
  qed (use Cons in simp_all)
qed

lemma combine_powers_error_based:
  "list_ex error_based fs \<Longrightarrow> combine_powers fs ps other = Inl (KeyError ''type'')"
proof (induction fs arbitrary: ps other)
  case Nil
  then show ?case by simp
next
  case (Cons f fs)
  show ?case
  proof (cases f)
    case (Power b e)
    with Cons show ?thesis by (cases b) simp_all
  qed (use Cons in simp_all)
qed

lemma canonical_variable_closed:
  "\<not> list_ex error_based fs \<Longrightarrow>
     canonical_variable fs = Inr (map_option variable_of (find variable_power fs))"
proof (induction fs)
  case Nil
  then show ?case by simp
next
  case (Cons f fs)
  show ?case
  proof (cases f)
    case (Power b e)
    with Cons show ?thesis by (cases b) simp_all
  qed (use Cons in simp_all)
qed

lemma exponent_of_others: "\<not> variable_power f \<Longrightarrow> exponent_of f = 0"
  by (induction f rule: exponent_of.induct) simp_all

lemma sum_exponents_none:
  "find variable_power fs = None \<Longrightarrow> sum_list (map exponent_of fs) = 0"
  by (induction fs) (auto simp add: exponent_of_others split: if_splits)

lemma variable_of_is_var: "variable_power f \<Longrightarrow> is_var (variable_of f)"
  by (induction f rule: variable_power.induct) simp_all

lemma atomic_not_error: "is_atomic f \<Longrightarrow> \<not> is_error_obj f"
  by (cases f) simp_all

lemma is_var_not_error: "is_var f \<Longrightarrow> \<not> is_error_obj f"
  by (cases f) simp_all

lemma combined_power_cases:
  "combined_power fs = [] \<or> (\<exists>x. combined_power fs = [Var x])
     \<or> (\<exists>x k. 2 \<le> k \<and> combined_power fs = [Power (Var x) k])"
proof (cases "find variable_power fs")
  case None
  then show ?thesis by (simp add: combined_power_def)
next
  case (Some f)
  then have "variable_power f" by (auto simp add: find_Some_iff)
  then obtain x where "variable_of f = Var x"
    by (induction f rule: variable_power.induct) simp_all
  with Some show ?thesis by (simp add: combined_power_def Let_def)
qed

lemma combined_power_atomic: "list_all is_atomic (combined_power fs)"
  using combined_power_cases [of fs] by auto

lemma rebuild_prod_closed:
  assumes "\<not> list_ex error_based fs" and "list_all is_atomic fs"
  shows "rebuild_prod p fs
     = Inr (rebuild_node p (sort_key prod_order_key
         (filter (\<lambda>f. \<not> variable_power f) fs @ combined_power fs)))"
proof -
  let ?other = "filter (\<lambda>f. \<not> variable_power f) fs"
  let ?ps = "sum_list (map exponent_of fs)"
  have cv: "canonical_variable fs = Inr (map_option variable_of (find variable_power fs))"
    using assms(1) by (rule canonical_variable_closed)
  have cp: "combine_powers fs 0 [] = Inr (?ps, ?other)"
    using combine_powers_closed [OF assms(1), of 0 "[]"] by simp
  have ok: "\<not> list_ex is_error_obj (?other @ combined_power fs)"
    using assms(2) combined_power_atomic [of fs]
    by (auto simp add: list_ex_iff list_all_iff dest: atomic_not_error)
  show ?thesis
  proof (cases "find variable_power fs")
    case None
    then have "?ps = 0" by (rule sum_exponents_none)
    with None cv cp ok show ?thesis
      by (simp add: rebuild_prod_def combined_power_def sorted_factors_def)
  next
    case (Some f)
    with cv cp ok show ?thesis
      by (auto simp add: rebuild_prod_def combined_power_def sorted_factors_def Let_def
          split: if_splits)
  qed
qed

lemma rebuild_prod_error_based:
  "list_ex error_based fs \<Longrightarrow> rebuild_prod p fs = Inl (KeyError ''type'')"
  by (cases "canonical_variable fs")
    (auto simp add: rebuild_prod_def combine_powers_error_based dest: canonical_variable_raises)

section \<open>Sorting the factors again changes nothing\<close>

lemma sort_key_sorted_prefix:
  "sort_key f (sort_key f xs @ ys) = sort_key f (xs @ ys)"
proof (rule properties_for_sort_key)
  show "mset (sort_key f (xs @ ys)) = mset (sort_key f xs @ ys)" by simp
next
  fix k
  have a: "filter (\<lambda>x. f k = f x) (sort_key f (xs @ ys)) = filter (\<lambda>x. f k = f x) (xs @ ys)"
    using sort_key_stable [of f "f k" "xs @ ys"] by (simp add: eq_commute)
  have b: "filter (\<lambda>x. f k = f x) (sort_key f xs) = filter (\<lambda>x. f k = f x) xs"
    using sort_key_stable [of f "f k" xs] by (simp add: eq_commute)
  from a b show "filter (\<lambda>x. f k = f x) (sort_key f (xs @ ys))
      = filter (\<lambda>x. f k = f x) (sort_key f xs @ ys)"
    by simp
next
  show "sorted (map f (sort_key f (xs @ ys)))" by (rule sorted_sort_key)
qed

lemma sum_list_map_sort_key:
  "sum_list (map g (sort_key f xs)) = (sum_list (map g xs) :: int)"
proof -
  have "sum_mset (mset (map g (sort_key f xs))) = sum_mset (mset (map g xs))" by simp
  then show ?thesis by (simp only: sum_mset_sum_list)
qed

lemma find_unique: "filter P xs = [y] \<Longrightarrow> find P xs = Some y"
  by (induction xs) (auto split: if_splits)

lemma find_none_filter: "filter P xs = [] \<Longrightarrow> find P xs = None"
  by (induction xs) (auto split: if_splits)

lemma sum_exponents_others:
  "sum_list (map exponent_of (filter (\<lambda>f. \<not> variable_power f) fs)) = 0"
  by (induction fs) (simp_all add: exponent_of_others)

lemma rebuild_prod_fixpoint:
  assumes "\<not> list_ex error_based fs" and "list_all is_atomic fs"
    and L: "L = sort_key prod_order_key
        (filter (\<lambda>f. \<not> variable_power f) fs @ combined_power fs)"
  shows "rebuild_prod 1 L = Inr (rebuild_node 1 L)"
proof -
  let ?O = "filter (\<lambda>f. \<not> variable_power f) fs"
  let ?E = "combined_power fs"
  have E: "?E = [] \<or> (\<exists>x. ?E = [Var x]) \<or> (\<exists>x k. 2 \<le> k \<and> ?E = [Power (Var x) k])"
    by (rule combined_power_cases)
  have setL: "set L = set ?O \<union> set ?E" using L by simp
  have atomic: "list_all is_atomic L"
    using assms(2) combined_power_atomic [of fs] setL by (auto simp add: list_all_iff)
  have E_ok: "\<forall>f\<in>set ?E. \<not> error_based f \<and> variable_power f"
    using E by auto
  have no_err: "\<not> list_ex error_based L"
    using assms(1) E_ok setL by (auto simp add: list_ex_iff)
  have filter_E: "filter (\<lambda>f. \<not> variable_power f) ?E = []"
    using E_ok by (simp add: filter_empty_conv)
  have filter_E': "filter variable_power ?E = ?E"
    using E_ok by (simp add: filter_id_conv)
  have others: "filter (\<lambda>f. \<not> variable_power f) L = sort_key prod_order_key ?O"
    using L filter_E by (simp add: filter_sort)
  have vars: "filter variable_power L = ?E"
  proof -
    have "filter variable_power L = sort_key prod_order_key (filter variable_power ?E)"
      using L by (simp add: filter_sort)
    also have "\<dots> = ?E" using E filter_E' by auto
    finally show ?thesis .
  qed
  have sum: "sum_list (map exponent_of L) = sum_list (map exponent_of ?E)"
    using L by (simp add: sum_list_map_sort_key sum_exponents_others)
  have same: "combined_power L = ?E"
  proof -
    consider (none) "?E = []" | (var) x where "?E = [Var x]"
      | (pow) x k where "2 \<le> k" "?E = [Power (Var x) k]"
      using E by blast
    then show ?thesis
    proof cases
      case none
      with vars have "find variable_power L = None" by (simp add: find_none_filter)
      with none show ?thesis by (simp add: combined_power_def)
    next
      case var
      with vars have "find variable_power L = Some (Var x)" by (simp add: find_unique)
      with var sum show ?thesis by (simp add: combined_power_def)
    next
      case pow
      with vars have "find variable_power L = Some (Power (Var x) k)" by (simp add: find_unique)
      with pow sum show ?thesis by (simp add: combined_power_def Let_def)
    qed
  qed
  have "sort_key prod_order_key (filter (\<lambda>f. \<not> variable_power f) L @ combined_power L) = L"
    using others same L by (simp add: sort_key_sorted_prefix)
  with rebuild_prod_closed [OF no_err atomic, of 1] show ?thesis by simp
qed

section \<open>The shape of normalized values\<close>

lemma absorb_constants_cases:
  "absorb_constants fs p acc = Inr n \<Longrightarrow> p \<noteq> 0 \<Longrightarrow> list_all is_atomic acc \<Longrightarrow>
     n = Const 0 \<or> is_error_obj n
     \<or> (\<exists>p' atoms. p' \<noteq> 0 \<and> list_all is_atomic atoms \<and> set atoms \<subseteq> set acc \<union> set fs
           \<and> rebuild_prod p' atoms = Inr n)"
proof (induction fs arbitrary: p acc)
  case Nil
  then show ?case by auto
next
  case (Cons f fs)
  show ?case
  proof (cases f)
    case (Const v)
    show ?thesis
    proof (cases "v = 0")
      case True
      with Cons.prems Const show ?thesis by simp
    next
      case False
      with Cons.prems Const have "absorb_constants fs (p * v) acc = Inr n" by simp
      from Cons.IH [OF this] False Cons.prems show ?thesis by auto
    qed
  next
    case (Var x)
    with Cons.prems have "absorb_constants fs p (acc @ [f]) = Inr n" by simp
    from Cons.IH [OF this] Cons.prems Var show ?thesis by auto
  next
    case (Power b e)
    with Cons.prems have "absorb_constants fs p (acc @ [f]) = Inr n" by simp
    from Cons.IH [OF this] Cons.prems Power show ?thesis by auto
  next
    case (Func name a)
    with Cons.prems have "absorb_constants fs p (acc @ [f]) = Inr n" by simp
    from Cons.IH [OF this] Cons.prems Func show ?thesis by auto
  qed (use Cons.prems in \<open>auto simp add: unsupported_def\<close>)
qed

lemma rebuild_node_long:
  "2 \<le> length L \<Longrightarrow> rebuild_node p L = (if p \<noteq> 1 then Mul p (Prod L) else Prod L)"
  by (cases L; cases "tl L") (auto simp add: rebuild_node_def)

lemma rebuild_prod_normal_shape:
  assumes r: "rebuild_prod p atoms = Inr n" and p: "p \<noteq> 0"
    and atomic: "list_all is_atomic atoms" and shape: "list_all (walk normal_shape) atoms"
  shows "walk normal_shape n"
proof -
  let ?L = "sort_key prod_order_key
      (filter (\<lambda>f. \<not> variable_power f) atoms @ combined_power atoms)"
  have ne: "\<not> list_ex error_based atoms"
    using r rebuild_prod_error_based [of atoms p] by auto
  from rebuild_prod_closed [OF ne atomic, of p] r have n: "n = rebuild_node p ?L" by simp
  have cp: "list_all (walk normal_shape) (combined_power atoms)"
    using combined_power_cases [of atoms] by auto
  have L_shape: "list_all (walk normal_shape) ?L"
    using shape cp by (auto simp add: list_all_iff)
  have L_atomic: "list_all is_atomic ?L"
    using atomic combined_power_atomic [of atoms] by (auto simp add: list_all_iff)
  show ?thesis
  proof (cases "2 \<le> length ?L")
    case True
    have again: "rebuild_prod 1 ?L = Inr (Prod ?L)"
      using rebuild_prod_fixpoint [OF ne atomic refl] True by (simp add: rebuild_node_long)
    have "normal_shape (Prod ?L)"
      using True L_atomic again by simp
    with L_shape have "walk normal_shape (Prod ?L)" by simp
    with True n p show ?thesis by (simp add: rebuild_node_long)
  next
    case False
    then consider (nil) "?L = []" | (single) f where "?L = [f]"
      by (cases ?L; cases "tl ?L") auto
    then show ?thesis
    proof cases
      case nil
      with n show ?thesis by (simp add: rebuild_node_def)
    next
      case single
      with L_shape L_atomic have "walk normal_shape f" "is_atomic f" by simp_all
      with single n p show ?thesis by (cases f) (simp_all add: rebuild_node_def)
    qed
  qed
qed

lemma walk_prod_factors: "walk chk (Prod gs) \<Longrightarrow> g \<in> set gs \<Longrightarrow> walk chk g"
  by (simp add: list_all_iff)

lemma walk_sum_terms: "walk chk (Sum ts) \<Longrightarrow> t \<in> set ts \<Longrightarrow> walk chk t"
  by (simp add: list_all_iff)

lemma flatten_factors_walk:
  assumes "flatten_factors (map f xs) = Inr fs"
    and "\<And>a n. a \<in> set xs \<Longrightarrow> f a = Inr n \<Longrightarrow> walk chk n"
  shows "list_all (walk chk) fs"
proof -
  have "walk chk g" if "g \<in> set fs" for g
    using flatten_factors_map_Inr [OF assms(1) that] assms(2)
    by (auto dest: walk_prod_factors)
  then show ?thesis by (simp add: list_all_iff)
qed

lemma flatten_terms_walk:
  "flatten_terms ts = Inr new \<Longrightarrow> list_all (walk chk) ts \<Longrightarrow> list_all (walk chk) new"
  by (induction ts arbitrary: new) (auto split: node.splits sum.splits if_splits)

lemma flatten_terms_shape:
  "flatten_terms ts = Inr new \<Longrightarrow> list_all (walk normal_shape) ts \<Longrightarrow>
     list_all (\<lambda>t. \<not> is_sum t \<and> \<not> is_zero_const t \<and> \<not> is_error_obj t) new"
  by (induction ts arbitrary: new) (auto split: node.splits sum.splits if_splits)

lemma rebuild_sum_cases:
  "rebuild_sum new = Const 0 \<and> new = [] \<or> (\<exists>t. new = [t] \<and> rebuild_sum new = t)
     \<or> (2 \<le> length new \<and> rebuild_sum new = Sum new)"
  by (cases new; cases "tl new") (auto simp add: rebuild_sum_def)

lemma collect_map_walk:
  assumes "collect (map f xs) = Inr ys"
    and "\<And>a n. a \<in> set xs \<Longrightarrow> f a = Inr n \<Longrightarrow> P n"
  shows "list_all P ys"
proof -
  have "list_all2 (\<lambda>x y. f x = Inr y) xs ys \<Longrightarrow> (\<forall>a\<in>set xs. \<forall>n. f a = Inr n \<longrightarrow> P n) \<Longrightarrow>
      list_all P ys"
    by (induction xs ys rule: list_all2_induct) auto
  with collect_map_Inr [OF assms(1)] assms(2) show ?thesis by blast
qed

lemma normalize_normal_shape:
  "normalize e = Inr n \<Longrightarrow> walk normal_shape n"
proof (induction e arbitrary: n)
  case (Const v)
  then show ?case by auto
next
  case (Var x)
  then show ?case by auto
next
  case (Power b k)
  then show ?case by (auto split: sum.splits if_splits)
next
  case (Mul c x)
  show ?case
  proof (cases "c = 0")
    case True
    with Mul.prems show ?thesis by auto
  next
    case False
    with Mul.prems obtain inner where inner: "normalize x = Inr inner"
      by (auto split: sum.splits)
    from Mul.IH [OF this] have "walk normal_shape inner" .
    with Mul.prems False inner show ?thesis
      by (cases inner) (auto split: if_splits)
  qed
next
  case (Prod fs)
  from Prod.prems obtain factors where
    fl: "flatten_factors (map normalize fs) = Inr factors" and
    ab: "absorb_constants factors 1 [] = Inr n"
    by (auto split: sum.splits)
  have shape: "list_all (walk normal_shape) factors"
    using fl Prod.IH by (rule flatten_factors_walk)
  from absorb_constants_cases [OF ab] consider "n = Const 0" | "is_error_obj n"
    | p' atoms where "p' \<noteq> 0" "list_all is_atomic atoms" "set atoms \<subseteq> set factors"
        "rebuild_prod p' atoms = Inr n"
    by auto
  then show ?case
  proof cases
    case 1
    then show ?thesis by simp
  next
    case 2
    then show ?thesis by (cases n) simp_all
  next
    case 3
    from 3(3) shape have "list_all (walk normal_shape) atoms"
      by (auto simp add: list_all_iff)
    with 3 show ?thesis by (auto intro: rebuild_prod_normal_shape)
  qed
next
  case (Sum ts)
  from Sum.prems obtain terms new where
    co: "collect (map normalize ts) = Inr terms" and
    ft: "flatten_terms terms = Inr new" and
    n: "n = rebuild_sum new"
    by (auto split: sum.splits)
  have "list_all (walk normal_shape) terms"
    using co Sum.IH by (rule collect_map_walk)
  with ft have new: "list_all (walk normal_shape) new"
    "list_all (\<lambda>t. \<not> is_sum t \<and> \<not> is_zero_const t \<and> \<not> is_error_obj t) new"
    by (auto dest: flatten_terms_walk flatten_terms_shape)
  from rebuild_sum_cases [of new] consider (nil) "n = Const 0" | (single) t where "new = [t]" "n = t"
    | (long) "2 \<le> length new" "n = Sum new"
    using n by auto
  then show ?case
  proof cases
    case nil
    then show ?thesis by simp
  next
    case single
    with new show ?thesis by simp
  next
    case long
    with new show ?thesis by simp
  qed
next
  case (Func name a)
  then obtain arg where arg: "normalize a = Inr arg"
    by (auto split: sum.splits)
  with Func.prems show ?case
    by (cases arg) (auto simp add: unsupported_def)
next
  case (ErrorObj r)
  then show ?case by simp
qed

section \<open>Idempotence\<close>

lemma flatten_terms_id:
  "list_all (\<lambda>t. \<not> is_sum t \<and> \<not> is_zero_const t \<and> \<not> is_error_obj t) ts \<Longrightarrow>
     flatten_terms ts = Inr ts"
proof (induction ts)
  case Nil
  then show ?case by simp
next
  case (Cons t ts)
  then show ?case by (cases t) simp_all
qed

lemma flatten_factors_id:
  "list_all is_atomic fs \<Longrightarrow> \<forall>f\<in>set fs. g f = Inr f \<Longrightarrow>
     flatten_factors (map g fs) = Inr fs"
proof (induction fs)
  case Nil
  then show ?case by simp
next
  case (Cons f fs)
  then show ?case by (cases f) simp_all
qed

lemma absorb_constants_atomic:
  "list_all is_atomic fs \<Longrightarrow> absorb_constants fs p acc = rebuild_prod p (acc @ fs)"
proof (induction fs arbitrary: acc)
  case Nil
  then show ?case by simp
next
  case (Cons f fs)
  then show ?case by (cases f) simp_all
qed

lemma collect_map_id: "\<forall>x\<in>set xs. f x = Inr x \<Longrightarrow> collect (map f xs) = Inr xs"
  by (induction xs) simp_all

lemma rebuild_sum_long: "2 \<le> length ts \<Longrightarrow> rebuild_sum ts = Sum ts"
  by (cases ts; cases "tl ts") (auto simp add: rebuild_sum_def)

lemma normal_shape_fixed:
  "walk normal_shape n \<Longrightarrow> is_tree n \<Longrightarrow> walk unit_free n \<Longrightarrow> normalize n = Inr n"
proof (induction n)
  case (Const v)
  then show ?case by simp
next
  case (Var x)
  then show ?case by simp
next
  case (Power b k)
  then show ?case by (simp add: is_tree_def)
next
  case (Mul c e)
  then have "normalize e = Inr e" by (simp add: is_tree_def)
  with Mul.prems show ?case by (cases e) (simp_all add: is_tree_def)
next
  case (Prod fs)
  have each: "\<forall>f\<in>set fs. normalize f = Inr f"
    using Prod by (simp add: is_tree_def list_all_iff)
  from Prod.prems have atomic: "list_all is_atomic fs"
    and again: "rebuild_prod 1 fs = Inr (Prod fs)" by simp_all
  from atomic each have "flatten_factors (map normalize fs) = Inr fs"
    by (rule flatten_factors_id)
  with atomic again show ?case by (simp add: absorb_constants_atomic)
next
  case (Sum ts)
  have each: "\<forall>t\<in>set ts. normalize t = Inr t"
    using Sum by (simp add: is_tree_def list_all_iff)
  then have c: "collect (map normalize ts) = Inr ts" by (rule collect_map_id)
  from Sum.prems have f: "flatten_terms ts = Inr ts"
    by (simp add: flatten_terms_id)
  from Sum.prems have "2 \<le> length ts" by simp
  then have "rebuild_sum ts = Sum ts" by (rule rebuild_sum_long)
  with c f show ?case by simp
next
  case (Func name a)
  then show ?case by (cases a) simp_all
next
  case (ErrorObj r)
  then show ?case by (simp add: is_tree_def)
qed

text \<open>With exact coefficients, a tree that \<open>normalize\<close> returns and in which no mul has
  the coefficient 1 is returned unchanged by a second normalization.\<close>

lemma normalized_tree_fixed:
  "normalize e = Inr n \<Longrightarrow> is_tree n \<Longrightarrow> walk unit_free n \<Longrightarrow> normalize n = normalize e"
  using normal_shape_fixed [of n] normalize_normal_shape [of e n] by simp


text \<open>
  C2. \<open>normalize\<close> is not idempotent on \<open>--x\<close>, which the parser turns into
  \<open>Mul(-1, Mul(-1, x))\<close>: the branch of \<open>normalize_mul\<close> for a nested mul multiplies the
  coefficients and returns \<open>Mul(1, x)\<close> without the test \<open>constant == 1\<close> that the
  last branch makes, and a second normalization returns \<open>x\<close>.
\<close>

theorem normalize_double_negation:
  "normalize (Mul (- 1) (Mul (- 1) (Var ''x''))) = Inr (Mul 1 (Var ''x''))
   \<and> normalize (Mul 1 (Var ''x'')) = Inr (Var ''x'')
   \<and> normalize (Mul 1 (Var ''x'')) \<noteq> normalize (Mul (- 1) (Mul (- 1) (Var ''x'')))"
  by simp

section \<open>Checks that \<open>normalize\<close> carries from its argument to its result\<close>

lemma walk_mono: "(\<And>m. P m \<Longrightarrow> Q m) \<Longrightarrow> walk P n \<Longrightarrow> walk Q n"
  by (induction n) (auto simp add: list_all_iff)

lemma rebuild_prod_walk:
  assumes r: "rebuild_prod p atoms = Inr n"
    and atomic: "list_all is_atomic atoms" and each: "list_all (walk cout) atoms"
    and const: "\<And>v. cout (Const v)" and var: "\<And>x. cout (Var x)"
    and mul: "\<And>c x. cout (Mul c x)" and prod: "\<And>fs. cout (Prod fs)"
    and power: "\<And>x k. 2 \<le> k \<Longrightarrow> cout (Power (Var x) k)"
  shows "walk cout n"
proof -
  let ?L = "sort_key prod_order_key
      (filter (\<lambda>f. \<not> variable_power f) atoms @ combined_power atoms)"
  have ne: "\<not> list_ex error_based atoms"
    using r rebuild_prod_error_based [of atoms p] by auto
  from rebuild_prod_closed [OF ne atomic, of p] r have n: "n = rebuild_node p ?L" by simp
  have cp: "list_all (walk cout) (combined_power atoms)"
    using combined_power_cases [of atoms] var power by auto
  have L: "list_all (walk cout) ?L"
    using each cp by (auto simp add: list_all_iff)
  show ?thesis
  proof (cases "2 \<le> length ?L")
    case True
    with n L mul prod show ?thesis by (simp add: rebuild_node_long)
  next
    case False
    then consider (nil) "?L = []" | (single) f where "?L = [f]"
      by (cases ?L; cases "tl ?L") auto
    then show ?thesis
    proof cases
      case nil
      with n const show ?thesis by (simp add: rebuild_node_def)
    next
      case single
      with L have "walk cout f" by simp
      with single n mul show ?thesis by (simp add: rebuild_node_def)
    qed
  qed
qed

lemma normalize_walk:
  assumes e: "walk cin e" and n: "normalize e = Inr n"
    and const: "\<And>v. cout (Const v)" and var: "\<And>x. cout (Var x)"
    and err: "\<And>r. cout (ErrorObj r)"
    and mul: "\<And>c x. cout (Mul c x)" and sum: "\<And>ts. cout (Sum ts)"
    and power: "\<And>b b' k. cin (Power b k) \<Longrightarrow> k \<noteq> 0 \<Longrightarrow> k \<noteq> 1 \<Longrightarrow> cout (Power b' k)"
    and func: "\<And>name a a'. cin (Func name a) \<Longrightarrow> cout (Func name a')"
    and prod: "\<And>fs fs'. cin (Prod fs) \<Longrightarrow> cout (Prod fs')"
    and prod_power: "\<And>fs x k. cin (Prod fs) \<Longrightarrow> 2 \<le> k \<Longrightarrow> cout (Power (Var x) k)"
  shows "walk cout n"
  using e n
proof (induction e arbitrary: n)
  case (Const v)
  with const show ?case by auto
next
  case (Var x)
  with var show ?case by auto
next
  case (Power b k)
  from Power.prems obtain base where base: "normalize b = Inr base"
    by (auto split: sum.splits)
  with Power have "walk cout base" by simp
  with Power.prems base const power [of b k base] show ?case
    by (auto split: if_splits)
next
  case (Mul c x)
  show ?case
  proof (cases "c = 0")
    case True
    with Mul.prems const show ?thesis by auto
  next
    case False
    with Mul.prems obtain inner where inner: "normalize x = Inr inner"
      by (auto split: sum.splits)
    with Mul have "walk cout inner" by simp
    with Mul.prems False inner const mul show ?thesis
      by (cases inner) (auto split: if_splits)
  qed
next
  case (Prod fs)
  from Prod.prems obtain factors where
    fl: "flatten_factors (map normalize fs) = Inr factors" and
    ab: "absorb_constants factors 1 [] = Inr n"
    by (auto split: sum.splits)
  from Prod.prems have cin: "cin (Prod fs)" and sub: "\<forall>f\<in>set fs. walk cin f"
    by (simp_all add: list_all_iff)
  have each: "list_all (walk cout) factors"
    using fl Prod.IH sub by (auto intro: flatten_factors_walk)
  from absorb_constants_cases [OF ab] consider "n = Const 0" | "is_error_obj n"
    | p' atoms where "p' \<noteq> 0" "list_all is_atomic atoms" "set atoms \<subseteq> set factors"
        "rebuild_prod p' atoms = Inr n"
    by auto
  then show ?case
  proof cases
    case 1
    with const show ?thesis by simp
  next
    case 2
    with err show ?thesis by (cases n) simp_all
  next
    case 3
    from 3(3) each have "list_all (walk cout) atoms"
      by (auto simp add: list_all_iff)
    with 3 show ?thesis
      using const var mul prod [OF cin] prod_power [OF cin]
      by (auto intro: rebuild_prod_walk)
  qed
next
  case (Sum ts)
  from Sum.prems obtain terms new where
    co: "collect (map normalize ts) = Inr terms" and
    ft: "flatten_terms terms = Inr new" and
    n: "n = rebuild_sum new"
    by (auto split: sum.splits)
  from Sum.prems have sub: "\<forall>t\<in>set ts. walk cin t" by (simp add: list_all_iff)
  have "list_all (walk cout) terms"
    using co Sum.IH sub by (auto intro: collect_map_walk)
  with ft have new: "list_all (walk cout) new"
    by (auto dest: flatten_terms_walk)
  from rebuild_sum_cases [of new] consider (nil) "n = Const 0" | (single) t where "new = [t]" "n = t"
    | (long) "2 \<le> length new" "n = Sum new"
    using n by auto
  then show ?case
  proof cases
    case nil
    with const show ?thesis by simp
  next
    case single
    with new show ?thesis by simp
  next
    case long
    with new sum show ?thesis by simp
  qed
next
  case (Func name a)
  then obtain arg where arg: "normalize a = Inr arg"
    by (auto split: sum.splits)
  with Func have "walk cout arg" by simp
  with Func.prems arg err func [of name a arg] show ?case
    by (cases arg) (auto simp add: unsupported_def)
next
  case (ErrorObj r)
  then show ?case by simp
qed

lemma normalize_exponents:
  "walk exp_nonneg e \<Longrightarrow> normalize e = Inr n \<Longrightarrow> walk power_exp_ok n"
  by (erule normalize_walk) auto

lemma normalize_function_names:
  "walk func_name_ok e \<Longrightarrow> normalize e = Inr n \<Longrightarrow> walk func_name_ok n"
  by (erule normalize_walk) auto

lemma normalize_prod_free:
  "walk (\<lambda>m. \<not> is_prod m) e \<Longrightarrow> normalize e = Inr n \<Longrightarrow> walk (\<lambda>m. \<not> is_prod m) n"
  by (erule normalize_walk) auto

section \<open>The invariants of a normalized tree\<close>

lemma normal_shape_invariants:
  assumes "walk normal_shape n"
  shows "walk mul_inner_ok n" and "walk sum_ok n" and "walk prod_atomic_ok n"
    and "walk prod_order_ok n" and "walk func_arg_ok n"
proof -
  have 1: "mul_inner_ok m" if "normal_shape m" for m
    using that by (cases m) simp_all
  have 2: "sum_ok m" if "normal_shape m" for m
    using that by (cases m) (simp_all add: list_all_iff)
  have 3: "prod_atomic_ok m" if "normal_shape m" for m
    using that by (cases m) simp_all
  have 4: "prod_order_ok m" if "normal_shape m" for m
    using that by (cases m) simp_all
  have 5: "func_arg_ok m" if "normal_shape m" for m
    using that by (cases m) simp_all
  from assms show "walk mul_inner_ok n" by (rule walk_mono [rotated]) (rule 1)
  from assms show "walk sum_ok n" by (rule walk_mono [rotated]) (rule 2)
  from assms show "walk prod_atomic_ok n" by (rule walk_mono [rotated]) (rule 3)
  from assms show "walk prod_order_ok n" by (rule walk_mono [rotated]) (rule 4)
  from assms show "walk func_arg_ok n" by (rule walk_mono [rotated]) (rule 5)
qed

section \<open>A sum or a mul among the factors of a product\<close>




section \<open>Normalizing the raw result of a rewrite rule\<close>

lemma is_tree_simps [simp]:
  "is_tree (Const v)" "is_tree (Var x)" "is_tree (Power b k) = is_tree b"
  "is_tree (Mul c e) = is_tree e" "is_tree (Prod fs) = list_all is_tree fs"
  "is_tree (Sum ts) = list_all is_tree ts" "is_tree (Func name a) = is_tree a"
  "\<not> is_tree (ErrorObj r)"
  by (simp_all add: is_tree_def list_all_iff)

lemma simple_simps [simp]:
  "simple (Const v)" "simple (Var x)" "simple (Power b k) = (0 \<le> k \<and> simple b)"
  "simple (Mul c e) = simple e" "\<not> simple (Prod fs)"
  "simple (Sum ts) = list_all simple ts"
  "simple (Func name a) =
     (is_var a \<and> (name = ''sin'' \<or> name = ''cos'' \<or> name = ''exp'') \<and> simple a)"
  "\<not> simple (ErrorObj r)"
  by (auto simp add: simple_def list_all_iff)

lemma collect_map_total:
  "\<forall>a\<in>set xs. \<exists>n. f a = Inr n \<and> P n \<Longrightarrow>
     \<exists>ys. collect (map f xs) = Inr ys \<and> list_all P ys"
  by (induction xs) auto

lemma flatten_terms_total:
  "list_all is_tree ts \<Longrightarrow> \<exists>new. flatten_terms ts = Inr new \<and> list_all is_tree new"
proof (induction ts)
  case Nil
  then show ?case by simp
next
  case (Cons t ts)
  then show ?case by (cases t) auto
qed

lemma rebuild_sum_is_tree: "list_all is_tree new \<Longrightarrow> is_tree (rebuild_sum new)"
  by (cases new; cases "tl new") (auto simp add: rebuild_sum_def)

lemma normalize_simple_total:
  "simple e \<Longrightarrow> \<exists>n. normalize e = Inr n \<and> is_tree n"
proof (induction e)
  case (Const v)
  then show ?case by simp
next
  case (Var x)
  then show ?case by simp
next
  case (Power b k)
  then show ?case by auto
next
  case (Mul c e)
  then obtain inner where "normalize e = Inr inner" "is_tree inner" by auto
  then show ?case by (cases inner) auto
next
  case (Prod fs)
  then show ?case by simp
next
  case (Sum ts)
  then have "\<forall>t\<in>set ts. \<exists>n. normalize t = Inr n \<and> is_tree n"
    by (auto simp add: list_all_iff)
  then obtain terms where terms: "collect (map normalize ts) = Inr terms" "list_all is_tree terms"
    using collect_map_total [of ts normalize is_tree] by blast
  from flatten_terms_total [OF terms(2)] obtain new where
    "flatten_terms terms = Inr new" "list_all is_tree new" by blast
  with terms show ?case by (simp add: rebuild_sum_is_tree)
next
  case (Func name a)
  then show ?case by (cases a) auto
next
  case (ErrorObj r)
  then show ?case by simp
qed

lemma normalize_simple:
  assumes "simple e"
  shows "\<exists>n. normalize e = Inr n \<and> all_invariants n \<and> simple n"
proof -
  from normalize_simple_total [OF assms] obtain n where
    n: "normalize e = Inr n" and tree: "is_tree n" by blast
  from n have shape: "walk normal_shape n" by (rule normalize_normal_shape)
  from assms n have exps: "walk power_exp_ok n"
    by (auto simp add: simple_def intro: normalize_exponents)
  from assms n have names: "walk func_name_ok n"
    by (auto simp add: simple_def intro: normalize_function_names)
  from assms n have free: "walk (\<lambda>m. \<not> is_prod m) n"
    by (auto simp add: simple_def intro: normalize_prod_free)
  have base: "walk prod_power_base_ok n"
  proof (rule walk_mono [OF _ free])
    fix m assume "\<not> is_prod m" then show "prod_power_base_ok m" by (cases m) simp_all
  qed
  have nonneg: "walk exp_nonneg n"
  proof (rule walk_mono [OF _ exps])
    fix m assume "power_exp_ok m" then show "exp_nonneg m" by (cases m) simp_all
  qed
  from tree shape exps names base have "all_invariants n"
    by (simp add: all_invariants_def normal_shape_invariants)
  moreover from tree free shape nonneg names have "simple n"
    by (simp add: simple_def normal_shape_invariants)
  ultimately show ?thesis using n by blast
qed

lemma finish_simple:
  assumes "finish fl r mode var_name = Inr (Success out)"
    and "\<And>o'. r = Inr (Success o') \<Longrightarrow> simple (result o')"
  shows "all_invariants (result out) \<and> simple (result out)"
proof -
  from finish_Success [OF assms(1)] obtain o' n s where
    r: "r = Inr (Success o')" and n: "normalize (result o') = Inr n" and
    out: "out = o'\<lparr>result := n,
      string := Some (if constant' o' = Some True then s @ '' + C'' else s)\<rparr>"
    by blast
  from normalize_simple [OF assms(2) [OF r]] n out show ?thesis by auto
qed

section \<open>The rewrite rules keep the invariants\<close>

lemma all_invariants_Mul: "all_invariants (Mul c e) \<Longrightarrow> all_invariants e"
  by (simp add: all_invariants_def)

lemma all_invariants_Sum: "all_invariants (Sum ts) \<Longrightarrow> t \<in> set ts \<Longrightarrow> all_invariants t"
  by (simp add: all_invariants_def list_all_iff)

lemma all_invariants_Power: "all_invariants (Power b k) \<Longrightarrow> 2 \<le> k"
  by (simp add: all_invariants_def)

lemma differentiate_rule_simple:
  "differentiate_const c = Inr (Success o') \<Longrightarrow> simple (result o')"
  "differentiate_var e = Inr (Success o') \<Longrightarrow> simple (result o')"
  "2 \<le> k \<Longrightarrow> differentiate_power b k = Inr (Success o') \<Longrightarrow> simple (result o')"
  "differentiate_func name a = Inr (Success o') \<Longrightarrow> simple (result o')"
  by (auto simp add: differentiate_const_def differentiate_var_def differentiate_power_def
      differentiate_func_def split: if_splits node.splits)

lemma integrate_rule_simple:
  "integrate_const c = Inr (Success o') \<Longrightarrow> simple (result o')"
  "integrate_var (Var x) = Inr (Success o') \<Longrightarrow> simple (result o')"
  "2 \<le> k \<Longrightarrow> integrate_power b k = Inr (Success o') \<Longrightarrow> simple (result o')"
  "integrate_func name a = Inr (Success o') \<Longrightarrow> simple (result o')"
  by (auto simp add: integrate_const_def integrate_var_def integrate_power_def
      integrate_func_def VAR_def split: if_splits node.splits)

lemma differentiate_sum_loop_simple:
  assumes "\<And>t o'. t \<in> set ts \<Longrightarrow> differentiate fl t mode var_name = Inr (Success o') \<Longrightarrow>
      simple (result o')"
    and "list_all simple acc"
    and "differentiate_sum_loop fl ts mode var_name acc st = Inr (Success out)"
  shows "simple (result out)"
  using assms
proof (induction ts arbitrary: acc st)
  case Nil
  then show ?case by auto
next
  case (Cons t ts)
  from Cons.prems(3) obtain sub where sub: "differentiate fl t mode var_name = Inr (Success sub)"
    and rest: "differentiate_sum_loop fl ts mode var_name (acc @ [result sub]) (st @ [steps sub])
      = Inr (Success out)"
    by (auto split: sum.splits outcome.splits)
  from Cons.prems(1) [of t sub] sub have "simple (result sub)" by simp
  with Cons.prems(2) have acc: "list_all simple (acc @ [result sub])" by simp
  show ?case
    by (rule Cons.IH [OF _ acc rest]) (use Cons.prems(1) in auto)
qed

lemma integrate_sum_loop_simple:
  assumes "\<And>t o'. t \<in> set ts \<Longrightarrow> integrate fl t mode var_name = Inr (Success o') \<Longrightarrow>
      simple (result o')"
    and "list_all simple acc"
    and "integrate_sum_loop fl ts mode var_name acc st = Inr (Success out)"
  shows "simple (result out)"
  using assms
proof (induction ts arbitrary: acc st)
  case Nil
  then show ?case by auto
next
  case (Cons t ts)
  from Cons.prems(3) obtain sub where sub: "integrate fl t mode var_name = Inr (Success sub)"
    and rest: "integrate_sum_loop fl ts mode var_name (acc @ [result sub]) (st @ [steps sub])
      = Inr (Success out)"
    by (auto split: sum.splits outcome.splits)
  from Cons.prems(1) [of t sub] sub have "simple (result sub)" by simp
  with Cons.prems(2) have acc: "list_all simple (acc @ [result sub])" by simp
  show ?case
    by (rule Cons.IH [OF _ acc rest]) (use Cons.prems(1) in auto)
qed

lemma differentiate_invariants:
  "all_invariants e \<Longrightarrow> differentiate fl e mode var_name = Inr (Success out) \<Longrightarrow>
     all_invariants (result out) \<and> simple (result out)"
proof (induction e arbitrary: out)
  case (Const v)
  then show ?case
    by (auto intro!: finish_simple [of fl "differentiate_const v" mode var_name out]
        dest: differentiate_rule_simple)
next
  case (Var x)
  then show ?case
    by (auto intro!: finish_simple [of fl "differentiate_var (Var x)" mode var_name out]
        dest: differentiate_rule_simple)
next
  case (Power b k)
  from Power.prems(1) have "2 \<le> k" by (rule all_invariants_Power)
  with Power.prems(2) show ?case
    by (auto intro!: finish_simple [of fl "differentiate_power b k" mode var_name out]
        dest: differentiate_rule_simple)
next
  case (Mul c e)
  from Mul.prems(1) have inv: "all_invariants e" by (rule all_invariants_Mul)
  have "simple (result o')" if "differentiate_mul fl c e mode var_name = Inr (Success o')" for o'
    using that Mul.IH [OF inv] by (auto split: sum.splits outcome.splits)
  with Mul.prems(2) show ?case
    by (auto intro!: finish_simple [of fl "differentiate_mul fl c e mode var_name" mode var_name out]
        simp del: differentiate_mul.simps)
next
  case (Prod fs)
  then show ?case by simp
next
  case (Sum ts)
  have each: "simple (result o')"
    if "t \<in> set ts" "differentiate fl t mode var_name = Inr (Success o')" for t o'
    using Sum.IH [OF that(1) all_invariants_Sum [OF Sum.prems(1) that(1)] that(2)] by simp
  have "simple (result o')" if "differentiate_sum fl ts mode var_name = Inr (Success o')" for o'
    using differentiate_sum_loop_simple [of ts fl mode var_name "[]" "[]" o'] each that
    by auto
  with Sum.prems(2) show ?case
    by (auto intro!: finish_simple [of fl "differentiate_sum fl ts mode var_name" mode var_name out]
        simp del: differentiate_sum.simps)
next
  case (Func name a)
  then show ?case
    by (auto intro!: finish_simple [of fl "differentiate_func name a" mode var_name out]
        dest: differentiate_rule_simple)
next
  case (ErrorObj r)
  then show ?case by simp
qed

lemma integrate_invariants:
  "all_invariants e \<Longrightarrow> integrate fl e mode var_name = Inr (Success out) \<Longrightarrow>
     all_invariants (result out) \<and> simple (result out)"
proof (induction e arbitrary: out)
  case (Const v)
  then show ?case
    by (auto intro!: finish_simple [of fl "integrate_const v" mode var_name out]
        dest: integrate_rule_simple)
next
  case (Var x)
  then show ?case
    by (auto intro!: finish_simple [of fl "integrate_var (Var x)" mode var_name out]
        dest: integrate_rule_simple)
next
  case (Power b k)
  from Power.prems(1) have "2 \<le> k" by (rule all_invariants_Power)
  with Power.prems(2) show ?case
    by (auto intro!: finish_simple [of fl "integrate_power b k" mode var_name out]
        dest: integrate_rule_simple)
next
  case (Mul c e)
  from Mul.prems(1) have inv: "all_invariants e" by (rule all_invariants_Mul)
  have "simple (result o')" if "integrate_mul fl c e mode var_name = Inr (Success o')" for o'
    using that Mul.IH [OF inv]
    by (auto split: if_splits sum.splits outcome.splits node.splits)
  with Mul.prems(2) show ?case
    by (auto intro!: finish_simple [of fl "integrate_mul fl c e mode var_name" mode var_name out]
        simp del: integrate_mul.simps)
next
  case (Prod fs)
  then show ?case by simp
next
  case (Sum ts)
  have each: "simple (result o')"
    if "t \<in> set ts" "integrate fl t mode var_name = Inr (Success o')" for t o'
    using Sum.IH [OF that(1) all_invariants_Sum [OF Sum.prems(1) that(1)] that(2)] by simp
  have "simple (result o')" if "integrate_sum fl ts mode var_name = Inr (Success o')" for o'
    using integrate_sum_loop_simple [of ts fl mode var_name "[]" "[]" o'] each that
    by auto
  with Sum.prems(2) show ?case
    by (auto intro!: finish_simple [of fl "integrate_sum fl ts mode var_name" mode var_name out]
        simp del: integrate_sum.simps)
next
  case (Func name a)
  then show ?case
    by (auto intro!: finish_simple [of fl "integrate_func name a" mode var_name out]
        dest: integrate_rule_simple)
next
  case (ErrorObj r)
  then show ?case by simp
qed

text \<open>
  C1. For every canonical input node (a tree that satisfies the eight invariants) on
  which \<open>differentiate\<close>, respectively \<open>integrate\<close>, returns success, the result node is a
  tree that satisfies the eight invariants.
\<close>

theorem rewrite_preserves_invariants:
  "all_invariants e \<Longrightarrow>
     (differentiate fl e mode var_name = Inr (Success out) \<longrightarrow> all_invariants (result out))
     \<and> (integrate fl e mode var_name = Inr (Success out') \<longrightarrow> all_invariants (result out'))"
  using differentiate_invariants [of e fl mode var_name out]
    integrate_invariants [of e fl mode var_name out']
  by blast

lemma differentiate_example:
  "differentiate no_float (Sum [Power (Var ''x'') 3, Func ''cos'' (Var ''x'')]) ''fraction'' ''x'' =
     Inr (Success \<lparr>
       result = Sum [Mul 3 (Power (Var ''x'') 2), Mul (- 1) (Func ''sin'' (Var ''x''))],
       steps = [Line ''Using Linearity of Differentiation:'',
                Nested [Line ''d/dx(x^3) = 3x^(2)''],
                Nested [Line ''d/dx(cos(x)) = -sin(x)'']],
       string = Some ''3x^2 - sin(x)'',
       constant' = None\<rparr>)"
  by (simp add: differentiate_power_def differentiate_func_def finish_def str_int_def
      digit_char_def rebuild_sum_def join_term_def Let_def)

lemma integrate_example:
  "integrate no_float (Sum [Power (Var ''x'') 3, Func ''cos'' (Var ''x'')]) ''fraction'' ''x'' =
     Inr (Success \<lparr>
       result = Sum [Mul (Fract 1 4) (Power (Var ''x'') 4), Func ''sin'' (Var ''x'')],
       steps = [Line ''Using Linearity of Integration:'',
                Nested [Line (integral_sign @ '' x^3 dx = x^4/4 + C'')],
                Nested [Line (integral_sign @ '' cos(x) dx = sin(x) + C'')]],
       string = Some ''1/4x^4 + sin(x) + C'',
       constant' = Some True\<rparr>)"
  by (simp add: integrate_power_def integrate_func_def finish_def str_int_def
      digit_char_def rebuild_sum_def join_term_def Let_def quotient_of_unit_fraction
      Fract_unit_nonzero Fract_unit_eq_one Fract_unit_ne_minus_one)

theorem rewrite_preserves_invariants_witness:
  "all_invariants (Sum [Power (Var ''x'') 3, Func ''cos'' (Var ''x'')])
   \<and> differentiate no_float (Sum [Power (Var ''x'') 3, Func ''cos'' (Var ''x'')]) ''fraction'' ''x'' =
     Inr (Success \<lparr>
       result = Sum [Mul 3 (Power (Var ''x'') 2), Mul (- 1) (Func ''sin'' (Var ''x''))],
       steps = [Line ''Using Linearity of Differentiation:'',
                Nested [Line ''d/dx(x^3) = 3x^(2)''],
                Nested [Line ''d/dx(cos(x)) = -sin(x)'']],
       string = Some ''3x^2 - sin(x)'',
       constant' = None\<rparr>)
   \<and> all_invariants (Sum [Mul 3 (Power (Var ''x'') 2), Mul (- 1) (Func ''sin'' (Var ''x''))])
   \<and> integrate no_float (Sum [Power (Var ''x'') 3, Func ''cos'' (Var ''x'')]) ''fraction'' ''x'' =
     Inr (Success \<lparr>
       result = Sum [Mul (Fract 1 4) (Power (Var ''x'') 4), Func ''sin'' (Var ''x'')],
       steps = [Line ''Using Linearity of Integration:'',
                Nested [Line (integral_sign @ '' x^3 dx = x^4/4 + C'')],
                Nested [Line (integral_sign @ '' cos(x) dx = sin(x) + C'')]],
       string = Some ''1/4x^4 + sin(x) + C'',
       constant' = Some True\<rparr>)
   \<and> all_invariants (Sum [Mul (Fract 1 4) (Power (Var ''x'') 4), Func ''sin'' (Var ''x'')])"
proof -
  have e: "all_invariants (Sum [Power (Var ''x'') 3, Func ''cos'' (Var ''x'')])"
    by (simp add: all_invariants_def)
  let ?d = "\<lparr>
       result = Sum [Mul 3 (Power (Var ''x'') 2), Mul (- 1) (Func ''sin'' (Var ''x''))],
       steps = [Line ''Using Linearity of Differentiation:'',
                Nested [Line ''d/dx(x^3) = 3x^(2)''],
                Nested [Line ''d/dx(cos(x)) = -sin(x)'']],
       string = Some ''3x^2 - sin(x)'',
       constant' = None\<rparr>"
  let ?i = "\<lparr>
       result = Sum [Mul (Fract 1 4) (Power (Var ''x'') 4), Func ''sin'' (Var ''x'')],
       steps = [Line ''Using Linearity of Integration:'',
                Nested [Line (integral_sign @ '' x^3 dx = x^4/4 + C'')],
                Nested [Line (integral_sign @ '' cos(x) dx = sin(x) + C'')]],
       string = Some ''1/4x^4 + sin(x) + C'',
       constant' = Some True\<rparr>"
  from rewrite_preserves_invariants [OF e, of no_float "''fraction''" "''x''" ?d ?i]
    differentiate_example integrate_example
  have "all_invariants (result ?d) \<and> all_invariants (result ?i)" by blast
  then have "all_invariants (Sum [Mul 3 (Power (Var ''x'') 2), Mul (- 1) (Func ''sin'' (Var ''x''))])
    \<and> all_invariants (Sum [Mul (Fract 1 4) (Power (Var ''x'') 4), Func ''sin'' (Var ''x'')])"
    by simp
  with e differentiate_example integrate_example show ?thesis by blast
qed

section \<open>The first zero, sum or mul among the factors of a product\<close>








section \<open>Normalizing a supported raw AST\<close>







section \<open>Invariant 6 on the result of \<open>normalize\<close>\<close>



section \<open>What \<open>normalize\<close> returns on a raw AST\<close>





text \<open>Step 3 of \<open>normalize_prod\<close> keeps a power whose base is not the variable among the
  factors, so that \<open>x sin^2(x)\<close> normalizes to a tree that \<open>assert_prod_power_base\<close>
  rejects.\<close>

lemma normalize_keeps_power_of_function:
  "normalize (Prod [Var ''x'', Power (Func ''sin'' (Var ''x'')) 2])
     = Inr (Prod [Var ''x'', Power (Func ''sin'' (Var ''x'')) 2])
   \<and> \<not> walk prod_power_base_ok (Prod [Var ''x'', Power (Func ''sin'' (Var ''x'')) 2])"
  by (simp add: rebuild_prod_def sorted_factors_def rebuild_node_def)

end
